theory Spec2Isabelle
  imports Main "HOL-Library.Sublist" "HOL-Library.Multiset" "HOL-Library.AList"
    "HOL-Library.Char_ord" "HOL-Library.List_Lexorder"
begin

section \<open>Go strings\<close>

text \<open>
  A Go string is a sequence of bytes, here a \<^typ>\<open>string\<close> (a list of \<^typ>\<open>char\<close>).
  The functions of package \<^verbatim>\<open>strings\<close> that the program calls and whose result is
  fixed by the bytes alone are written out. \<^verbatim>\<open>strings.Index\<close> returns \<^verbatim>\<open>-1\<close> when
  the substring does not occur; that is \<^term>\<open>None\<close> here.
\<close>

definition HasPrefix :: "string \<Rightarrow> string \<Rightarrow> bool" where
  "HasPrefix s pre = prefix pre s"

definition HasSuffix :: "string \<Rightarrow> string \<Rightarrow> bool" where
  "HasSuffix s suf = prefix (rev suf) (rev s)"

fun Index :: "string \<Rightarrow> string \<Rightarrow> nat option" where
  "Index [] sub = (if sub = [] then Some 0 else None)"
| "Index (c # s) sub = (if prefix sub (c # s) then Some 0 else map_option Suc (Index s sub))"

definition Contains :: "string \<Rightarrow> string \<Rightarrow> bool" where
  "Contains s sub = (Index s sub \<noteq> None)"

definition TrimSuffix :: "string \<Rightarrow> string \<Rightarrow> string" where
  "TrimSuffix s suf = (if HasSuffix s suf then take (length s - length suf) s else s)"

text \<open>
  \<^verbatim>\<open>strings.ReplaceAll(s, old, new)\<close> scans left to right and never looks again at
  what it has written. Both calls of the program pass a non-empty literal for \<^verbatim>\<open>old\<close>;
  for an empty \<^verbatim>\<open>old\<close> (which Go treats rune by rune) the text is left as it is.
\<close>

function ReplaceAll :: "string \<Rightarrow> string \<Rightarrow> string \<Rightarrow> string" where
  "ReplaceAll [] old new = []"
| "ReplaceAll (c # s) old new =
     (if old \<noteq> [] \<and> prefix old (c # s)
      then new @ ReplaceAll (drop (length old) (c # s)) old new
      else c # ReplaceAll s old new)"
  by pat_completeness auto
termination
  by (relation "measure (\<lambda>(s, old, new). length s)") auto

text \<open>\<^verbatim>\<open>strings.Split(s, sep)\<close> for a separator of one byte: always at least one piece.\<close>

function Split :: "string \<Rightarrow> char \<Rightarrow> string list" where
  "Split s sep =
     (case dropWhile (\<lambda>c. c \<noteq> sep) s of
        [] \<Rightarrow> [s]
      | c # rest \<Rightarrow> takeWhile (\<lambda>c. c \<noteq> sep) s # Split rest sep)"
  by pat_completeness auto
termination
proof (relation "measure (\<lambda>(s, sep). length s)")
  fix s :: string and sep c rest
  assume "dropWhile (\<lambda>c. c \<noteq> sep) s = c # rest"
  then have "Suc (length rest) = length (dropWhile (\<lambda>c. c \<noteq> sep) s)"
    by simp
  also have "\<dots> \<le> length s"
    by (rule length_dropWhile_le)
  finally show "((rest, sep), (s, sep)) \<in> measure (\<lambda>(s, sep). length s)"
    by simp
qed simp

declare Split.simps [simp del]

text \<open>\<^verbatim>\<open>strings.SplitN(s, sep, 2)\<close> for a separator of one byte: cut at the first one.\<close>

definition SplitN2 :: "string \<Rightarrow> char \<Rightarrow> string list" where
  "SplitN2 s sep =
     (if sep \<in> set s
      then [takeWhile (\<lambda>c. c \<noteq> sep) s, tl (dropWhile (\<lambda>c. c \<noteq> sep) s)]
      else [s])"

section \<open>Go file paths (Unix)\<close>

text \<open>
  \<^verbatim>\<open>path/filepath\<close> with separator \<^verbatim>\<open>/\<close> and no volume names. \<^verbatim>\<open>Clean\<close> is
  written over the path's elements: empty elements and \<^verbatim>\<open>.\<close> vanish, \<^verbatim>\<open>..\<close> removes
  the element before it, is dropped at the root, and stays at the front of a relative
  path. The stack of kept elements is held with its top first.
\<close>

fun join_elems :: "string list \<Rightarrow> string" where
  "join_elems [] = []"
| "join_elems [e] = e"
| "join_elems (e # f # es) = e @ ''/'' @ join_elems (f # es)"

definition clean_step :: "bool \<Rightarrow> string \<Rightarrow> string list \<Rightarrow> string list" where
  "clean_step rooted e st =
     (if e = [] \<or> e = ''.'' then st
      else if e = ''..'' then
        (case st of
           [] \<Rightarrow> if rooted then [] else [''..'']
         | t # rest \<Rightarrow> if t = ''..'' then ''..'' # st else rest)
      else e # st)"

definition Clean :: "string \<Rightarrow> string" where
  "Clean path =
     (if path = [] then ''.''
      else
        let rooted = (hd path = CHR ''/'');
            st = fold (clean_step rooted) (Split path CHR ''/'') [];
            out = (if rooted then ''/'' else []) @ join_elems (rev st)
        in if out = [] then ''.'' else out)"

definition Join :: "string list \<Rightarrow> string" where
  "Join elem =
     (case dropWhile (\<lambda>e. e = []) elem of
        [] \<Rightarrow> []
      | e # es \<Rightarrow> Clean (join_elems (e # es)))"

definition Base :: "string \<Rightarrow> string" where
  "Base path =
     (if path = [] then ''.''
      else
        let p = rev (dropWhile (\<lambda>c. c = CHR ''/'') (rev path));
            b = rev (takeWhile (\<lambda>c. c \<noteq> CHR ''/'') (rev p))
        in if b = [] then ''/'' else b)"

definition Dir :: "string \<Rightarrow> string" where
  "Dir path = Clean (rev (dropWhile (\<lambda>c. c \<noteq> CHR ''/'') (rev path)))"

section \<open>Errors, YAML values and the libraries outside the repository\<close>

datatype error =
  ErrNotExist | ErrWrite | ErrMkdir | ErrYaml | ErrRel | ErrOutsideModel

text \<open>
  What \<^verbatim>\<open>Page.Save\<close> puts into its \<^verbatim>\<open>map[string]interface{}\<close>: a string or a
  \<^verbatim>\<open>[]string\<close>.
\<close>

datatype mvalue = MStr string | MList "string list"

text \<open>
  What \<^verbatim>\<open>yaml.Unmarshal\<close> stores in a \<^verbatim>\<open>map[string]interface{}\<close>, as far as the
  type assertions of \<^verbatim>\<open>loadPage\<close> tell values apart: a string, a \<^verbatim>\<open>[]interface{}\<close>,
  or anything else (a number, a boolean, null, a nested mapping).
\<close>

datatype yaml = YStr string | YSeq "yaml list" | YOther

text \<open>
  The code calls five library functions whose results are not a simple function of
  the bytes: the YAML encoder and decoder of \<^verbatim>\<open>gopkg.in/yaml.v3\<close>,
  \<^verbatim>\<open>filepath.Rel\<close>, and the Unicode-aware \<^verbatim>\<open>strings.ToLower\<close> and
  \<^verbatim>\<open>strings.TrimSpace\<close>. Every function of the program takes them as a parameter
  \<open>L\<close>, and the general theorems hold for every \<open>L\<close>.
\<close>

record golib =
  yaml_Marshal :: "(string \<times> mvalue) list \<Rightarrow> error + string"
  yaml_Unmarshal :: "string \<Rightarrow> error + (string \<Rightarrow> yaml option)"
  filepath_Rel :: "string \<Rightarrow> string \<Rightarrow> error + string"
  strings_ToLower :: "string \<Rightarrow> string"
  strings_TrimSpace :: "string \<Rightarrow> string"

section \<open>The file system\<close>

text \<open>
  Files are a map from path to content. Reading fails exactly on an absent path;
  whether creating a directory or writing a file fails is the file system's own
  business, given by two predicates.
\<close>

record filesys =
  files :: "string \<Rightarrow> string option"
  mkdir_fails :: "string \<Rightarrow> bool"
  write_fails :: "string \<Rightarrow> bool"

definition ReadFile :: "filesys \<Rightarrow> string \<Rightarrow> error + string" where
  "ReadFile fs path = (case files fs path of None \<Rightarrow> Inl ErrNotExist | Some c \<Rightarrow> Inr c)"

definition WriteFile :: "filesys \<Rightarrow> string \<Rightarrow> string \<Rightarrow> error option \<times> filesys" where
  "WriteFile fs path bytes =
     (if write_fails fs path then (Some ErrWrite, fs)
      else (None, fs\<lparr>files := (files fs)(path \<mapsto> bytes)\<rparr>))"

definition MkdirAll :: "filesys \<Rightarrow> string \<Rightarrow> error option" where
  "MkdirAll fs path = (if mkdir_fails fs path then Some ErrMkdir else None)"

section \<open>obsidian/Vault.go: pages\<close>

record Page =
  Title :: string
  Folder :: string
  Tags :: "string list"
  Aliases :: "string list"
  Url :: string
  UrlAliases :: "string list"
  WebBadgeColor :: string
  WebMessage :: string
  FilePath :: string
  Content :: string

text \<open>\<^verbatim>\<open>&Page{FilePath: filePath}\<close>: every other field has Go's zero value.\<close>

definition newPage :: "string \<Rightarrow> Page" where
  "newPage filePath =
     \<lparr>Title = [], Folder = [], Tags = [], Aliases = [], Url = [], UrlAliases = [],
      WebBadgeColor = [], WebMessage = [], FilePath = filePath, Content = []\<rparr>"

text \<open>
  The type assertions of \<^verbatim>\<open>loadPage\<close> (lines 109-143): a list-typed key counts only
  when its value is a sequence, and of the sequence only the strings; a scalar key
  counts only when its value is a string.
\<close>

definition stringItems :: "yaml option \<Rightarrow> string list" where
  "stringItems v =
     (case v of
        Some (YSeq items) \<Rightarrow> concat (map (\<lambda>i. case i of YStr s \<Rightarrow> [s] | _ \<Rightarrow> []) items)
      | _ \<Rightarrow> [])"

definition stringValue :: "yaml option \<Rightarrow> string" where
  "stringValue v = (case v of Some (YStr s) \<Rightarrow> s | _ \<Rightarrow> [])"

definition extractMetadata :: "(string \<Rightarrow> yaml option) \<Rightarrow> Page \<Rightarrow> Page" where
  "extractMetadata metadata page =
     page\<lparr>Tags := stringItems (metadata ''tags''),
          Aliases := stringItems (metadata ''aliases''),
          Url := stringValue (metadata ''url''),
          UrlAliases := stringItems (metadata ''url-aliases''),
          WebBadgeColor := stringValue (metadata ''web-badge-color''),
          WebMessage := stringValue (metadata ''web-message'')\<rparr>"

text \<open>
  \<^verbatim>\<open>loadPage\<close> (lines 82-162). \<^verbatim>\<open>contentStr[4:]\<close> is \<^term>\<open>drop 4 contentStr\<close>,
  \<^verbatim>\<open>contentStr[4 : endIdx+4]\<close> is \<^term>\<open>take endIdx (drop 4 contentStr)\<close> and
  \<^verbatim>\<open>contentStr[endIdx+8:]\<close> is \<^term>\<open>drop (endIdx + 8) contentStr\<close>; the slices are
  in range because the delimiter was found at \<open>endIdx\<close>.
\<close>

definition loadPage :: "golib \<Rightarrow> filesys \<Rightarrow> string \<Rightarrow> string \<Rightarrow> error + Page" where
  "loadPage L fs filePath vaultPath =
     (case ReadFile fs filePath of
        Inl err \<Rightarrow> Inl err
      | Inr contentStr \<Rightarrow>
          let page = newPage filePath;
              parsed =
                (if HasPrefix contentStr ''---\<newline>'' then
                   (case Index (drop 4 contentStr) ''---\<newline>'' of
                      None \<Rightarrow> Inr page
                    | Some endIdx \<Rightarrow>
                        let frontmatter = take endIdx (drop 4 contentStr);
                            page = page\<lparr>Content := drop (endIdx + 8) contentStr\<rparr>
                        in (case yaml_Unmarshal L frontmatter of
                              Inl err \<Rightarrow> Inl err
                            | Inr metadata \<Rightarrow> Inr (extractMetadata metadata page)))
                 else Inr (page\<lparr>Content := contentStr\<rparr>))
          in (case parsed of
                Inl err \<Rightarrow> Inl err
              | Inr page \<Rightarrow>
                  let page = page\<lparr>Title := TrimSuffix (Base filePath) ''.md''\<rparr>
                  in (case filepath_Rel L vaultPath filePath of
                        Inl err \<Rightarrow> Inl err
                      | Inr relPath \<Rightarrow> Inr (page\<lparr>Folder := Dir relPath\<rparr>))))"

text \<open>
  \<^verbatim>\<open>Page.Save\<close> (lines 165-214). The metadata is a Go map: it has no order of its
  own, and the six assignments use six different keys. It is kept here as the list
  of its entries in the order of assignment; what order the file shows is decided by
  the encoder.
\<close>

definition saveMetadata :: "Page \<Rightarrow> (string \<times> mvalue) list" where
  "saveMetadata page =
     (if length (Tags page) > 0 then [(''tags'', MList (Tags page))] else []) @
     (if length (Aliases page) > 0 then [(''aliases'', MList (Aliases page))] else []) @
     (if Url page \<noteq> [] then [(''url'', MStr (Url page))] else []) @
     (if length (UrlAliases page) > 0 then [(''url-aliases'', MList (UrlAliases page))] else []) @
     (if WebBadgeColor page \<noteq> [] then [(''web-badge-color'', MStr (WebBadgeColor page))] else []) @
     (if WebMessage page \<noteq> [] then [(''web-message'', MStr (WebMessage page))] else [])"

definition fileContent :: "golib \<Rightarrow> Page \<Rightarrow> error + string" where
  "fileContent L page =
     (let metadata = saveMetadata page in
      if length metadata > 0 then
        (case yaml_Marshal L metadata of
           Inl err \<Rightarrow> Inl err
         | Inr yamlData \<Rightarrow> Inr (''---\<newline>'' @ yamlData @ ''---\<newline>'' @ Content page))
      else Inr (Content page))"

definition Save :: "golib \<Rightarrow> filesys \<Rightarrow> Page \<Rightarrow> error option \<times> filesys" where
  "Save L fs page =
     (case fileContent L page of
        Inl err \<Rightarrow> (Some err, fs)
      | Inr bytes \<Rightarrow> WriteFile fs (FilePath page) bytes)"

section \<open>program/sync.go: records and the vault in memory\<close>

record BlockedRecord =
  UserID :: string
  CreatedAt :: string
  UpdatedAt :: string
  Nickname :: string

text \<open>
  \<^verbatim>\<open>PrivateNoteRecord\<close>; its two time stamps are \<^verbatim>\<open>CreatedAt\<close> and
  \<^verbatim>\<open>UpdatedAt\<close> in the source, renamed because record fields share one name space.
\<close>

record PrivateNoteRecord =
  MemberID :: string
  NoteCreatedAt :: string
  NoteUpdatedAt :: string
  PrivateNote :: string

record SyncCmd =
  DataDir :: string
  CreatePeopleIn :: "string list"
  CreateBlockedIn :: string

record Options =
  Vault :: string

text \<open>
  The state a run works on: \<^verbatim>\<open>vault.Pages\<close> and the disk. \<^verbatim>\<open>vault.Pages\<close> is a
  slice of pointers, each to a page of its own (one allocation per loaded file), so a
  \<^verbatim>\<open>*Page\<close> is modelled by the position of the page in the slice, and a write
  through the pointer by an update at that position.
\<close>

record world =
  Pages :: "Page list"
  disk :: filesys

section \<open>program/sync.go: findPageByUserID\<close>

definition urlMatches :: "string \<Rightarrow> string \<Rightarrow> bool" where
  "urlMatches url userID =
     (Contains url (''/users/'' @ userID) \<or> HasSuffix url (''/'' @ userID))"

text \<open>The inner loop over \<^verbatim>\<open>page.UrlAliases\<close>, left by \<^verbatim>\<open>break\<close> at the first match.\<close>

fun aliasMatches :: "string list \<Rightarrow> string \<Rightarrow> bool" where
  "aliasMatches [] userID = False"
| "aliasMatches (urlAlias # rest) userID =
     (if urlMatches urlAlias userID then True else aliasMatches rest userID)"

text \<open>The outer loop; \<open>i\<close> is the position of \<open>page\<close> in \<^verbatim>\<open>vault.Pages\<close>.\<close>

fun findFrom :: "nat \<Rightarrow> Page list \<Rightarrow> string \<Rightarrow> nat list" where
  "findFrom i [] userID = []"
| "findFrom i (page # rest) userID =
     (if urlMatches (Url page) userID then i # findFrom (Suc i) rest userID
      else if aliasMatches (UrlAliases page) userID then i # findFrom (Suc i) rest userID
      else findFrom (Suc i) rest userID)"

text \<open>The error result of \<^verbatim>\<open>findPageByUserID\<close> is always \<^verbatim>\<open>nil\<close> and is left out.\<close>

definition findPageByUserID :: "Page list \<Rightarrow> string \<Rightarrow> nat list" where
  "findPageByUserID pages userID = findFrom 0 pages userID"

section \<open>program/sync.go: folder rules\<close>

fun keywordLoop :: "golib \<Rightarrow> string list \<Rightarrow> string list" where
  "keywordLoop L [] = []"
| "keywordLoop L (kw # rest) =
     (let trimmed = strings_TrimSpace L kw in
      if trimmed \<noteq> [] then strings_ToLower L trimmed # keywordLoop L rest
      else keywordLoop L rest)"

definition parseFolderConfig :: "golib \<Rightarrow> string \<Rightarrow> string \<times> string list" where
  "parseFolderConfig L config =
     (let parts = SplitN2 config CHR '':'';
          folder = hd parts in
      if length parts = 2 \<and> parts ! 1 \<noteq> []
      then (folder, keywordLoop L (Split (parts ! 1) CHR '',''))
      else (folder, []))"

text \<open>The loop over one rule's keywords: it returns at the first keyword found.\<close>

fun keywordFound :: "string \<Rightarrow> string list \<Rightarrow> bool" where
  "keywordFound lowerNote [] = False"
| "keywordFound lowerNote (keyword # rest) =
     (if Contains lowerNote keyword then True else keywordFound lowerNote rest)"

text \<open>The loop over \<^verbatim>\<open>sync.CreatePeopleIn\<close>: the folder it returns from, if any.\<close>

fun folderScan :: "golib \<Rightarrow> string \<Rightarrow> string list \<Rightarrow> string option" where
  "folderScan L lowerNote [] = None"
| "folderScan L lowerNote (config # rest) =
     (case parseFolderConfig L config of
        (folder, keywords) \<Rightarrow>
          if length keywords > 0 \<and> keywordFound lowerNote keywords then Some folder
          else folderScan L lowerNote rest)"

definition determineFolderForUser :: "golib \<Rightarrow> SyncCmd \<Rightarrow> string \<Rightarrow> string \<Rightarrow> string" where
  "determineFolderForUser L sync userID privateNote =
     (if length (CreatePeopleIn sync) = 0 then ''People''
      else
        (case (if privateNote \<noteq> []
               then folderScan L (strings_ToLower L privateNote) (CreatePeopleIn sync)
               else None) of
           Some folder \<Rightarrow> folder
         | None \<Rightarrow> fst (parseFolderConfig L (CreatePeopleIn sync ! 0))))"

section \<open>program/sync.go: creating a page\<close>

definition defaultTemplate :: "string \<Rightarrow> string" where
  "defaultTemplate userID =
     ''---\<newline>tags:\<newline>  - person\<newline>url: https://fetlife.com/users/'' @ userID @
     ''\<newline>---\<newline>\<newline># Notes\<newline>''"

text \<open>
  \<^verbatim>\<open>createPageInFolder\<close> (lines 348-408). The result is the new page's position in
  \<^verbatim>\<open>vault.Pages\<close>. A file that was written stays written when loading it back fails.
\<close>

definition createPageInFolder ::
  "golib \<Rightarrow> Options \<Rightarrow> world \<Rightarrow> string \<Rightarrow> string \<Rightarrow> string \<Rightarrow> (error + nat) \<times> world" where
  "createPageInFolder L options w userID nickname folder =
     (let pageName = (if nickname = [] then ''user-'' @ userID else nickname);
          folderPath = Join [Vault options, folder]
      in case MkdirAll (disk w) folderPath of
           Some err \<Rightarrow> (Inl err, w)
         | None \<Rightarrow>
             let filePath = Join [folderPath, pageName @ ''.md''];
                 templatePath = Join [Vault options, ''Templates'', ''People.md''];
                 templateContent =
                   (case ReadFile (disk w) templatePath of
                      Inl err \<Rightarrow> defaultTemplate userID
                    | Inr c \<Rightarrow> c);
                 content = ReplaceAll templateContent ''{{title}}'' pageName;
                 content = ReplaceAll content ''url: https://fetlife.com/users/''
                             (''url: https://fetlife.com/users/'' @ userID)
             in case WriteFile (disk w) filePath content of
                  (Some err, fs) \<Rightarrow> (Inl err, w)
                | (None, fs) \<Rightarrow>
                    (case loadPage L fs filePath (Vault options) of
                       Inl err \<Rightarrow> (Inl err, w\<lparr>disk := fs\<rparr>)
                     | Inr page \<Rightarrow>
                         (Inr (length (Pages w)), w\<lparr>Pages := Pages w @ [page], disk := fs\<rparr>)))"

definition createPageFromTemplateWithNote ::
  "golib \<Rightarrow> SyncCmd \<Rightarrow> Options \<Rightarrow> world \<Rightarrow> string \<Rightarrow> string \<Rightarrow> string \<Rightarrow> (error + nat) \<times> world" where
  "createPageFromTemplateWithNote L sync options w userID nickname privateNote =
     (let folder = determineFolderForUser L sync userID privateNote
      in createPageInFolder L options w userID nickname folder)"

section \<open>program/sync.go: one record at a time\<close>

text \<open>The loop of \<^verbatim>\<open>processBlocked\<close> that looks for the tag (lines 214-220).\<close>

fun hasBlockedTag :: "string list \<Rightarrow> bool" where
  "hasBlockedTag [] = False"
| "hasBlockedTag (tag # rest) = (if tag = ''blocked'' then True else hasBlockedTag rest)"

text \<open>The update of the page in memory (lines 213-229).\<close>

definition markBlocked :: "BlockedRecord \<Rightarrow> Page \<Rightarrow> Page" where
  "markBlocked blocked page =
     (let page = (if \<not> hasBlockedTag (Tags page)
                  then page\<lparr>Tags := Tags page @ [''blocked'']\<rparr> else page)
      in if WebMessage page = []
         then page\<lparr>WebMessage := ''Blocked on '' @ CreatedAt blocked\<rparr>
         else page)"

text \<open>
  The page behind the pointer is changed in memory first and saved after; when the
  save fails the change in memory stays.
\<close>

definition updateAndSave :: "golib \<Rightarrow> world \<Rightarrow> nat \<Rightarrow> Page \<Rightarrow> error option \<times> world" where
  "updateAndSave L w ref page =
     (let w = w\<lparr>Pages := (Pages w)[ref := page]\<rparr>
      in case Save L (disk w) page of (err, fs) \<Rightarrow> (err, w\<lparr>disk := fs\<rparr>))"

definition processBlocked ::
  "golib \<Rightarrow> SyncCmd \<Rightarrow> Options \<Rightarrow> world \<Rightarrow> BlockedRecord \<Rightarrow> error option \<times> world" where
  "processBlocked L sync options w blocked =
     (let pages = findPageByUserID (Pages w) (UserID blocked) in
      if length pages > 1 then (None, w)
      else
        (case (if length pages = 0
               then createPageInFolder L options w (UserID blocked) (Nickname blocked)
                      (CreateBlockedIn sync)
               else (Inr (pages ! 0), w)) of
           (Inl err, w) \<Rightarrow> (Some err, w)
         | (Inr page, w) \<Rightarrow> updateAndSave L w page (markBlocked blocked (Pages w ! page))))"

definition processPrivateNote ::
  "golib \<Rightarrow> SyncCmd \<Rightarrow> Options \<Rightarrow> world \<Rightarrow> PrivateNoteRecord \<Rightarrow> error option \<times> world" where
  "processPrivateNote L sync options w note =
     (let pages = findPageByUserID (Pages w) (MemberID note) in
      if length pages > 1 then (None, w)
      else
        (case (if length pages = 0
               then createPageFromTemplateWithNote L sync options w (MemberID note) []
                      (PrivateNote note)
               else (Inr (pages ! 0), w)) of
           (Inl err, w) \<Rightarrow> (Some err, w)
         | (Inr page, w) \<Rightarrow>
             updateAndSave L w page ((Pages w ! page)\<lparr>WebMessage := PrivateNote note\<rparr>)))"

text \<open>
  The two loops of \<^verbatim>\<open>SyncCmd.Run\<close> (lines 65-79): an error of one record is logged
  and the loop goes on with the next record.
\<close>

fun processBlockeds ::
  "golib \<Rightarrow> SyncCmd \<Rightarrow> Options \<Rightarrow> world \<Rightarrow> BlockedRecord list \<Rightarrow> world" where
  "processBlockeds L sync options w [] = w"
| "processBlockeds L sync options w (blocked # rest) =
     processBlockeds L sync options (snd (processBlocked L sync options w blocked)) rest"

fun processPrivateNotes ::
  "golib \<Rightarrow> SyncCmd \<Rightarrow> Options \<Rightarrow> world \<Rightarrow> PrivateNoteRecord list \<Rightarrow> world" where
  "processPrivateNotes L sync options w [] = w"
| "processPrivateNotes L sync options w (note # rest) =
     processPrivateNotes L sync options (snd (processPrivateNote L sync options w note)) rest"

section \<open>program/generate.go: mergeUserData\<close>

text \<open>
  \<^verbatim>\<open>MergedUser\<close>; the fields \<^verbatim>\<open>UserID\<close>, \<^verbatim>\<open>Nickname\<close> and \<^verbatim>\<open>PrivateNote\<close> of the
  source carry the prefix \<open>m\<close> here, since the input records own those names.
\<close>

record MergedUser =
  mUserID :: string
  mNickname :: string
  URL :: string
  Blocked :: bool
  BlockedAt :: string
  mPrivateNote :: string
  NoteCreated :: string
  NoteUpdated :: string

text \<open>
  \<^verbatim>\<open>userMap\<close> is a Go map from identifier to \<^verbatim>\<open>*MergedUser\<close>: an association list
  with one entry per key, assignment being \<^const>\<open>AList.update\<close> and lookup
  \<^const>\<open>map_of\<close>.
\<close>

fun addBlockeds ::
  "BlockedRecord list \<Rightarrow> (string \<times> MergedUser) list \<Rightarrow> (string \<times> MergedUser) list" where
  "addBlockeds [] userMap = userMap"
| "addBlockeds (blocked # rest) userMap =
     addBlockeds rest
       (AList.update (UserID blocked)
          \<lparr>mUserID = UserID blocked, mNickname = Nickname blocked,
           URL = ''https://fetlife.com/users/'' @ UserID blocked,
           Blocked = True, BlockedAt = CreatedAt blocked,
           mPrivateNote = [], NoteCreated = [], NoteUpdated = []\<rparr>
          userMap)"

fun addNotes ::
  "PrivateNoteRecord list \<Rightarrow> (string \<times> MergedUser) list \<Rightarrow> (string \<times> MergedUser) list" where
  "addNotes [] userMap = userMap"
| "addNotes (note # rest) userMap =
     addNotes rest
       (case map_of userMap (MemberID note) of
          Some existing \<Rightarrow>
            AList.update (MemberID note)
              (existing\<lparr>mPrivateNote := PrivateNote note,
                        NoteCreated := NoteCreatedAt note,
                        NoteUpdated := NoteUpdatedAt note\<rparr>)
              userMap
        | None \<Rightarrow>
            AList.update (MemberID note)
              \<lparr>mUserID = MemberID note, mNickname = [],
               URL = ''https://fetlife.com/users/'' @ MemberID note,
               Blocked = False, BlockedAt = [],
               mPrivateNote = PrivateNote note,
               NoteCreated = NoteCreatedAt note,
               NoteUpdated = NoteUpdatedAt note\<rparr>
              userMap)"

text \<open>
  The result slice is filled by ranging over the map, in an order Go leaves open:
  the model returns the records as a multiset.
\<close>

definition mergeUserData :: "BlockedRecord list \<Rightarrow> PrivateNoteRecord list \<Rightarrow> MergedUser multiset" where
  "mergeUserData blockeds privateNotes =
     (let userMap = addNotes privateNotes (addBlockeds blockeds [])
      in mset (map snd userMap))"

section \<open>The words of the specification\<close>

text \<open>
  A folder rule as the specification words it, without the parser of the program:
  the folder is the text before the first colon; the keywords are the pieces of the
  text after it, cut at the commas, each trimmed, the empty ones dropped (a rule
  without a colon, or with nothing after it, has none). A keyword occurs in a note
  without regard to case when its lower-cased form is a substring of the lower-cased
  note.
\<close>

definition ruleFolder :: "string \<Rightarrow> string" where
  "ruleFolder rule = takeWhile (\<lambda>c. c \<noteq> CHR '':'') rule"

definition ruleRemainder :: "string \<Rightarrow> string" where
  "ruleRemainder rule = drop (Suc (length (ruleFolder rule))) rule"

definition ruleKeywords :: "golib \<Rightarrow> string \<Rightarrow> string list" where
  "ruleKeywords L rule =
     (if ruleRemainder rule = [] then []
      else filter (\<lambda>kw. kw \<noteq> []) (map (strings_TrimSpace L) (Split (ruleRemainder rule) CHR '','')))"

definition occursIgnoringCase :: "golib \<Rightarrow> string \<Rightarrow> string \<Rightarrow> bool" where
  "occursIgnoringCase L kw note = sublist (strings_ToLower L kw) (strings_ToLower L note)"

text \<open>
  \<open>routeUser\<close> as the specification words it: \<^verbatim>\<open>"People"\<close> for no rules; for a
  non-empty note the folder of the first rule one of whose keywords occurs in the
  note without regard to case; else the folder of the first rule.
\<close>

definition routeUser :: "golib \<Rightarrow> string list \<Rightarrow> string \<Rightarrow> string" where
  "routeUser L rules note =
     (if rules = [] then ''People''
      else if note \<noteq> [] then
        (case find (\<lambda>rule. list_ex (\<lambda>kw. occursIgnoringCase L kw note) (ruleKeywords L rule)) rules of
           Some rule \<Rightarrow> ruleFolder rule
         | None \<Rightarrow> ruleFolder (hd rules))
      else ruleFolder (hd rules))"

text \<open>
  The match of a document as the specification words it, with the substring and
  suffix relations of the list library.
\<close>

definition identityMatches :: "string \<Rightarrow> string \<Rightarrow> bool" where
  "identityMatches url ident = (sublist (''/users/'' @ ident) url \<or> suffix (''/'' @ ident) url)"

definition documentMatches :: "string \<Rightarrow> Page \<Rightarrow> bool" where
  "documentMatches ident page =
     (identityMatches (Url page) ident \<or> list_ex (\<lambda>a. identityMatches a ident) (UrlAliases page))"

text \<open>
  The merged records as the specification words them: for an identifier of one
  stream only that stream's fields, for a shared identifier the fields of both.
\<close>

definition blockedOnly :: "BlockedRecord \<Rightarrow> MergedUser" where
  "blockedOnly b =
     \<lparr>mUserID = UserID b, mNickname = Nickname b,
      URL = ''https://fetlife.com/users/'' @ UserID b, Blocked = True, BlockedAt = CreatedAt b,
      mPrivateNote = [], NoteCreated = [], NoteUpdated = []\<rparr>"

definition noteOnly :: "PrivateNoteRecord \<Rightarrow> MergedUser" where
  "noteOnly n =
     \<lparr>mUserID = MemberID n, mNickname = [],
      URL = ''https://fetlife.com/users/'' @ MemberID n, Blocked = False, BlockedAt = [],
      mPrivateNote = PrivateNote n, NoteCreated = NoteCreatedAt n, NoteUpdated = NoteUpdatedAt n\<rparr>"

definition blockedAndNote :: "BlockedRecord \<Rightarrow> PrivateNoteRecord \<Rightarrow> MergedUser" where
  "blockedAndNote b n =
     \<lparr>mUserID = UserID b, mNickname = Nickname b,
      URL = ''https://fetlife.com/users/'' @ UserID b, Blocked = True, BlockedAt = CreatedAt b,
      mPrivateNote = PrivateNote n, NoteCreated = NoteCreatedAt n, NoteUpdated = NoteUpdatedAt n\<rparr>"

section \<open>The YAML library on block-style text\<close>

text \<open>
  \<^verbatim>\<open>gopkg.in/yaml.v3\<close> is not code of the repository. Where a statement needs its
  output, the following model of its block style is used. The encoder writes the
  entries of a mapping sorted by key, a string as \<^verbatim>\<open>key: scalar\<close> and a list of
  strings as \<^verbatim>\<open>key:\<close> followed by one line \<^verbatim>\<open>    - scalar\<close> for each item. How a
  scalar is written (plain, quoted, as a block) is the parameter \<open>sc\<close>, which gets the
  indentation and the string.
\<close>

definition yamlEntry :: "(nat \<Rightarrow> string \<Rightarrow> string) \<Rightarrow> string \<times> mvalue \<Rightarrow> string" where
  "yamlEntry sc kv =
     (case kv of
        (k, MStr s) \<Rightarrow> k @ '': '' @ sc 0 s @ ''\<newline>''
      | (k, MList xs) \<Rightarrow>
          if xs = [] then k @ '': []\<newline>''
          else k @ '':\<newline>'' @ concat (map (\<lambda>x. ''    - '' @ sc 4 x @ ''\<newline>'') xs))"

definition yamlBlock :: "(nat \<Rightarrow> string \<Rightarrow> string) \<Rightarrow> (string \<times> mvalue) list \<Rightarrow> string" where
  "yamlBlock sc m = (if m = [] then ''{}\<newline>'' else concat (map (yamlEntry sc) (sort_key fst m)))"

text \<open>
  Strings that the library writes and reads back as they are: they start with a
  letter, consist of letters, digits and \<^verbatim>\<open>_ . / : -\<close>, do not end in a colon, and
  are none of the words the library reads as a boolean or null or writes in quotes.
\<close>

definition letters :: string where
  "letters = ''abcdefghijklmnopqrstuvwxyzABCDEFGHIJKLMNOPQRSTUVWXYZ''"

definition reservedWords :: "string list" where
  "reservedWords =
     [''true'', ''True'', ''TRUE'', ''false'', ''False'', ''FALSE'', ''null'', ''Null'', ''NULL'',
      ''y'', ''Y'', ''yes'', ''Yes'', ''YES'', ''n'', ''N'', ''no'', ''No'', ''NO'',
      ''on'', ''On'', ''ON'', ''off'', ''Off'', ''OFF'']"

definition plainScalar :: "string \<Rightarrow> bool" where
  "plainScalar s =
     (s \<noteq> [] \<and> hd s \<in> set letters \<and> last s \<noteq> CHR '':''
      \<and> list_all (\<lambda>c. c \<in> set (letters @ ''0123456789_./:-'')) s
      \<and> s \<notin> set reservedWords)"

definition plainValue :: "mvalue \<Rightarrow> bool" where
  "plainValue v = (case v of MStr s \<Rightarrow> plainScalar s | MList xs \<Rightarrow> list_all plainScalar xs)"

definition yaml_v3_Marshal :: "(string \<times> mvalue) list \<Rightarrow> error + string" where
  "yaml_v3_Marshal m =
     (if list_all (\<lambda>kv. plainScalar (fst kv) \<and> plainValue (snd kv)) m
      then Inr (yamlBlock (\<lambda>indent s. s) m)
      else Inl ErrOutsideModel)"

text \<open>
  The decoder on the same fragment: lines \<^verbatim>\<open>key: scalar\<close>, and lines \<^verbatim>\<open>key:\<close>
  followed by indented items \<^verbatim>\<open>- scalar\<close> of one indentation. Any other text is
  outside the model.
\<close>

datatype yline = LScalar string string | LOpen string | LItem nat string | LOther

definition classify :: "string \<Rightarrow> yline" where
  "classify l =
     (let indent = length (takeWhile (\<lambda>c. c = CHR '' '') l);
          t = drop indent l
      in if indent > 0 then
           (if HasPrefix t ''- '' \<and> plainScalar (drop 2 t) then LItem indent (drop 2 t) else LOther)
         else
           (case Index l '': '' of
              Some i \<Rightarrow>
                if plainScalar (take i l) \<and> plainScalar (drop (i + 2) l)
                then LScalar (take i l) (drop (i + 2) l) else LOther
            | None \<Rightarrow>
                if l \<noteq> [] \<and> last l = CHR '':'' \<and> plainScalar (butlast l)
                then LOpen (butlast l) else LOther))"

fun isItem :: "yline \<Rightarrow> bool" where
  "isItem (LItem indent s) = True"
| "isItem other = False"

fun itemText :: "yline \<Rightarrow> string" where
  "itemText (LItem indent s) = s"
| "itemText other = []"

fun itemIndent :: "yline \<Rightarrow> nat" where
  "itemIndent (LItem indent s) = indent"
| "itemIndent other = 0"

function decodeLines :: "yline list \<Rightarrow> (string \<times> yaml) list option" where
  "decodeLines [] = Some []"
| "decodeLines (l # ls) =
     (case l of
        LScalar k v \<Rightarrow> map_option ((#) (k, YStr v)) (decodeLines ls)
      | LOpen k \<Rightarrow>
          (let items = takeWhile isItem ls in
           if items = [] \<or> \<not> list_all (\<lambda>i. itemIndent i = itemIndent (hd items)) items then None
           else map_option ((#) (k, YSeq (map (\<lambda>i. YStr (itemText i)) items)))
                  (decodeLines (dropWhile isItem ls)))
      | LItem indent s \<Rightarrow> None
      | LOther \<Rightarrow> None)"
  by pat_completeness auto
termination
  by (relation "measure length") (auto simp: length_dropWhile_le less_Suc_eq_le)

definition yamlLines :: "string \<Rightarrow> string list" where
  "yamlLines s = (let ls = Split s CHR ''\<newline>'' in if last ls = [] then butlast ls else ls)"

definition yaml_v3_Unmarshal :: "string \<Rightarrow> error + (string \<Rightarrow> yaml option)" where
  "yaml_v3_Unmarshal s =
     (case decodeLines (map classify (yamlLines s)) of
        None \<Rightarrow> Inl ErrOutsideModel
      | Some entries \<Rightarrow>
          if distinct (map fst entries) then Inr (map_of entries) else Inl ErrOutsideModel)"

text \<open>
  The metadata block as the specification words it: the non-empty fields under the
  keys tags, aliases, url, url-aliases, web-badge-color, web-message, in this order
  (\<open>claimedEntries\<close>, \<open>claimedFileContent\<close>); and the same entries in the order of
  their keys (\<open>sortedEntries\<close>).
\<close>

definition nonEmpty :: "mvalue \<Rightarrow> bool" where
  "nonEmpty v = (case v of MStr s \<Rightarrow> s \<noteq> [] | MList xs \<Rightarrow> xs \<noteq> [])"

definition claimedEntries :: "Page \<Rightarrow> (string \<times> mvalue) list" where
  "claimedEntries page =
     filter (\<lambda>kv. nonEmpty (snd kv))
       [(''tags'', MList (Tags page)), (''aliases'', MList (Aliases page)),
        (''url'', MStr (Url page)), (''url-aliases'', MList (UrlAliases page)),
        (''web-badge-color'', MStr (WebBadgeColor page)),
        (''web-message'', MStr (WebMessage page))]"

definition claimedFileContent :: "(nat \<Rightarrow> string \<Rightarrow> string) \<Rightarrow> Page \<Rightarrow> string" where
  "claimedFileContent sc page =
     (if claimedEntries page = [] then Content page
      else ''---\<newline>'' @ concat (map (yamlEntry sc) (claimedEntries page)) @ ''---\<newline>''
           @ Content page)"

definition sortedEntries :: "Page \<Rightarrow> (string \<times> mvalue) list" where
  "sortedEntries page =
     filter (\<lambda>kv. nonEmpty (snd kv))
       [(''aliases'', MList (Aliases page)), (''tags'', MList (Tags page)),
        (''url'', MStr (Url page)), (''url-aliases'', MList (UrlAliases page)),
        (''web-badge-color'', MStr (WebBadgeColor page)),
        (''web-message'', MStr (WebMessage page))]"

section \<open>The other libraries on plain input\<close>

text \<open>
  \<^verbatim>\<open>filepath.Rel\<close> where the target lies at or below the base, and for the base
  \<^verbatim>\<open>.\<close>; other pairs of paths are outside the model.
\<close>

definition Rel_below :: "string \<Rightarrow> string \<Rightarrow> error + string" where
  "Rel_below basepath targpath =
     (let base = Clean basepath; targ = Clean targpath in
      if targ = base then Inr ''.''
      else if base = ''.'' then (if HasPrefix targ ''/'' then Inl ErrRel else Inr targ)
      else if base \<noteq> ''/'' \<and> HasPrefix targ (base @ ''/'') then Inr (drop (length base + 1) targ)
      else Inl ErrOutsideModel)"

text \<open>\<^verbatim>\<open>strings.ToLower\<close> and \<^verbatim>\<open>strings.TrimSpace\<close> as they act on ASCII text.\<close>

definition ascii_ToLower :: "string \<Rightarrow> string" where
  "ascii_ToLower s =
     map (\<lambda>c. case map_of (zip ''ABCDEFGHIJKLMNOPQRSTUVWXYZ'' ''abcdefghijklmnopqrstuvwxyz'') c of
                Some l \<Rightarrow> l | None \<Rightarrow> c) s"

definition asciiSpace :: "char \<Rightarrow> bool" where
  "asciiSpace c = (c \<in> set [CHR '' '', CHR 0x09, CHR ''\<newline>'', CHR 0x0B, CHR 0x0C, CHR 0x0D])"

definition ascii_TrimSpace :: "string \<Rightarrow> string" where
  "ascii_TrimSpace s = rev (dropWhile asciiSpace (rev (dropWhile asciiSpace s)))"

definition go_lib :: golib where
  "go_lib =
     \<lparr>yaml_Marshal = yaml_v3_Marshal, yaml_Unmarshal = yaml_v3_Unmarshal,
      filepath_Rel = Rel_below, strings_ToLower = ascii_ToLower,
      strings_TrimSpace = ascii_TrimSpace\<rparr>"

section \<open>Concrete inputs\<close>

text \<open>A disk with the given files on which every directory and file can be made.\<close>

definition diskOf :: "(string \<times> string) list \<Rightarrow> filesys" where
  "diskOf fl = \<lparr>files = map_of fl, mkdir_fails = (\<lambda>p. False), write_fails = (\<lambda>p. False)\<rparr>"

definition sync0 :: SyncCmd where
  "sync0 = \<lparr>DataDir = ''data'', CreatePeopleIn = [''People'', ''Bad People:creepy,stalker''],
            CreateBlockedIn = ''Bad People''\<rparr>"

text \<open>Rules whose keywords are written with capitals and blanks.\<close>

definition sync1 :: SyncCmd where
  "sync1 = \<lparr>DataDir = ''data'', CreatePeopleIn = [''People:'', ''Bad: Creepy , STALKER,, ''],
            CreateBlockedIn = ''Bad People''\<rparr>"

definition options0 :: Options where
  "options0 = \<lparr>Vault = ''vault''\<rparr>"

text \<open>A vault with no page and no template.\<close>

definition emptyVault :: world where
  "emptyVault = \<lparr>Pages = [], disk = diskOf []\<rparr>"

text \<open>A page of user 123, a page of user 77 with an alias, and a blocked record.\<close>

definition page123 :: Page where
  "page123 = (newPage ''vault/People/Ann.md'')\<lparr>Url := ''https://fetlife.com/users/123''\<rparr>"

definition page77 :: Page where
  "page77 = (newPage ''vault/People/Bob.md'')
     \<lparr>Url := ''https://example.org/bob'', UrlAliases := [''https://fetlife.com/users/77'']\<rparr>"

definition blocked123 :: BlockedRecord where
  "blocked123 = \<lparr>UserID = ''123'', CreatedAt = ''2024-01-01'', UpdatedAt = ''2024-01-02'',
                 Nickname = ''Ann''\<rparr>"

text \<open>
  A vault in which two pages carry the URL of user 123, a note for that user, and a
  disk with a file whose front matter is never closed.
\<close>

definition twoAnns :: world where
  "twoAnns = \<lparr>Pages = [page123, page77, page123\<lparr>FilePath := ''vault/Old/Ann.md''\<rparr>],
              disk = diskOf [(''vault/People/Ann.md'', ''a''), (''vault/People/Bob.md'', ''b''),
                             (''vault/Old/Ann.md'', ''c'')]\<rparr>"

definition note123 :: PrivateNoteRecord where
  "note123 = \<lparr>MemberID = ''123'', NoteCreatedAt = ''2024-02-01'', NoteUpdatedAt = ''2024-02-02'',
              PrivateNote = ''This person is really CREEPY''\<rparr>"

definition unterminated :: filesys where
  "unterminated =
     diskOf [(''vault/People/Cy.md'', ''---\<newline>tags:\<newline>  - person\<newline>My notes\<newline>'')]"

text \<open>Two more records for the merge.\<close>

definition blocked9 :: BlockedRecord where
  "blocked9 = \<lparr>UserID = ''9'', CreatedAt = ''2023-05-05'', UpdatedAt = ''2023-05-06'',
               Nickname = ''Nine''\<rparr>"

definition note5 :: PrivateNoteRecord where
  "note5 = \<lparr>MemberID = ''5'', NoteCreatedAt = ''2022-01-01'', NoteUpdatedAt = ''2022-01-02'',
            PrivateNote = ''friend''\<rparr>"

text \<open>A note whose member identifier holds path separators.\<close>

definition noteSlash :: PrivateNoteRecord where
  "noteSlash = \<lparr>MemberID = ''x/../y'', NoteCreatedAt = ''2024-03-01'', NoteUpdatedAt = ''2024-03-02'',
                PrivateNote = ''friend''\<rparr>"

text \<open>A page with all six fields set, whose message ends in three dashes.\<close>

definition sixFields :: Page where
  "sixFields =
     \<lparr>Title = ''Ann'', Folder = ''People'', Tags = [''person'', ''friend''], Aliases = [''Annie''],
      Url = ''https://fetlife.com/users/123'', UrlAliases = [''https://example.org/ann''],
      WebBadgeColor = ''red'', WebMessage = ''hi---'', FilePath = ''vault/People/Ann.md'',
      Content = ''My notes\<newline>''\<rparr>"

section \<open>Notions used in the proofs\<close>

text \<open>A file name: not empty, not a dot element, no separator.\<close>

definition fileName :: "string \<Rightarrow> bool" where
  "fileName n = (n \<noteq> [] \<and> n \<noteq> ''.'' \<and> n \<noteq> ''..'' \<and> CHR ''/'' \<notin> set n)"

text \<open>The record that one note leaves under its key in \<^verbatim>\<open>userMap\<close>.\<close>

definition noteInto :: "PrivateNoteRecord \<Rightarrow> MergedUser option \<Rightarrow> MergedUser" where
  "noteInto n old =
     (case old of
        Some existing \<Rightarrow>
          existing\<lparr>mPrivateNote := PrivateNote n, NoteCreated := NoteCreatedAt n,
                    NoteUpdated := NoteUpdatedAt n\<rparr>
      | None \<Rightarrow> noteOnly n)"

section \<open>Lemmas: strings and matching\<close>

lemma Index_None_iff: "Index s sub = None \<longleftrightarrow> \<not> sublist sub s"
  by (induction s) (auto simp: sublist_Cons_right)

lemma Contains_iff: "Contains s sub \<longleftrightarrow> sublist sub s"
  by (simp add: Contains_def Index_None_iff)

lemma HasSuffix_iff: "HasSuffix s suf \<longleftrightarrow> suffix suf s"
  by (simp add: HasSuffix_def suffix_to_prefix)

lemma urlMatches_iff: "urlMatches url userID \<longleftrightarrow> identityMatches url userID"
  by (simp add: urlMatches_def identityMatches_def Contains_iff HasSuffix_iff)

lemma aliasMatches_iff:
  "aliasMatches as userID \<longleftrightarrow> list_ex (\<lambda>a. identityMatches a userID) as"
  by (induction as) (simp_all add: urlMatches_iff)

lemma findFrom_shift: "findFrom i pages userID = map ((+) i) (findFrom 0 pages userID)"
proof (induction pages arbitrary: i)
  case Nil
  show ?case by simp
next
  case (Cons p ps)
  have a: "findFrom (Suc i) ps userID = map ((+) (Suc i)) (findFrom 0 ps userID)"
    by (rule Cons.IH)
  have b: "findFrom (Suc 0) ps userID = map ((+) (Suc 0)) (findFrom 0 ps userID)"
    by (rule Cons.IH)
  show ?case
    by (simp add: a b)
qed

lemma findFrom_pages:
  "map ((!) pages) (findFrom 0 pages userID) = filter (documentMatches userID) pages"
proof (induction pages)
  case Nil
  show ?case by simp
next
  case (Cons p ps)
  have s: "findFrom (Suc 0) ps userID = map Suc (findFrom 0 ps userID)"
    using findFrom_shift [of "Suc 0" ps userID] by simp
  have n: "map ((!) (p # ps)) (map Suc xs) = map ((!) ps) xs" for xs
    by simp
  show ?case
    using Cons.IH
    by (simp add: s n documentMatches_def urlMatches_iff aliasMatches_iff del: map_map)
qed

lemma findFrom_sorted:
  "sorted_wrt (<) (findFrom i pages userID)
   \<and> set (findFrom i pages userID) \<subseteq> {i ..< i + length pages}"
proof (induction pages arbitrary: i)
  case Nil
  show ?case by simp
next
  case (Cons p ps)
  from Cons.IH [of "Suc i"] show ?case
    by auto
qed

lemma hasBlockedTag_iff: "hasBlockedTag tags \<longleftrightarrow> ''blocked'' \<in> set tags"
  by (induction tags) auto

lemma markBlocked_Tags:
  "Tags (markBlocked blocked page) =
     (if ''blocked'' \<in> set (Tags page) then Tags page else Tags page @ [''blocked''])"
  by (simp add: markBlocked_def Let_def hasBlockedTag_iff)

lemma markBlocked_WebMessage:
  "WebMessage (markBlocked blocked page) =
     (if WebMessage page = [] then ''Blocked on '' @ CreatedAt blocked else WebMessage page)"
  by (simp add: markBlocked_def Let_def)

section \<open>C1: saving and loading again\<close>

lemma drop_length_append: "drop (length xs) (xs @ ys) = ys"
  by simp

lemma drop_frame: "drop (length y + 8) (a1 # a2 # a3 # a4 # y @ b1 # b2 # b3 # b4 # c) = c"
proof -
  have l: "length y + 8 = length (a1 # a2 # a3 # a4 # y @ [b1, b2, b3, b4])"
    by simp
  have a: "a1 # a2 # a3 # a4 # y @ b1 # b2 # b3 # b4 # c =
      (a1 # a2 # a3 # a4 # y @ [b1, b2, b3, b4]) @ c"
    by simp
  show ?thesis
    by (subst l, subst a, rule drop_length_append)
qed

lemma Index_prefix: "prefix sub s \<Longrightarrow> Index s sub = Some 0"
  by (cases s) simp_all

lemma Index_Some_append:
  "\<not> sublist sub s \<Longrightarrow> (\<And>t. \<not> sublist sub t \<Longrightarrow> t \<noteq> [] \<Longrightarrow> \<not> prefix sub (t @ sub @ b))
    \<Longrightarrow> Index (s @ sub @ b) sub = Some (length s)"
proof (induction s)
  case Nil
  show ?case by (simp add: Index_prefix)
next
  case (Cons c s)
  from Cons.prems(1) have ns: "\<not> sublist sub s"
    by (auto simp: sublist_Cons_right)
  have "\<not> prefix sub ((c # s) @ sub @ b)"
    using Cons.prems(2) [OF Cons.prems(1)] by simp
  then show ?case
    using Cons.IH [OF ns Cons.prems(2)] by simp
qed

lemma delimiter_no_overlap:
  assumes "\<not> sublist ''---\<newline>'' t" and "t \<noteq> []"
  shows "\<not> prefix ''---\<newline>'' (t @ ''---\<newline>'' @ b)"
proof (cases t)
  case Nil
  with assms(2) show ?thesis by simp
next
  case t1: (Cons c1 r1)
  show ?thesis
  proof (cases r1)
    case Nil
    with t1 show ?thesis by simp
  next
    case t2: (Cons c2 r2)
    show ?thesis
    proof (cases r2)
      case Nil
      with t1 t2 show ?thesis by simp
    next
      case t3: (Cons c3 r3)
      show ?thesis
      proof (cases r3)
        case Nil
        with t1 t2 t3 show ?thesis by simp
      next
        case t4: (Cons c4 r4)
        have "\<not> prefix ''---\<newline>'' t"
          using assms(1) by (auto simp: sublist_def prefix_def)
        with t1 t2 t3 t4 show ?thesis by simp
      qed
    qed
  qed
qed

lemma Index_delimiter:
  "\<not> Contains y ''---\<newline>'' \<Longrightarrow> Index (y @ ''---\<newline>'' @ b) ''---\<newline>'' = Some (length y)"
  by (rule Index_Some_append) (auto simp: Contains_iff dest: delimiter_no_overlap)

text \<open>
  What does hold: when the YAML text of the metadata holds no \<^verbatim>\<open>---\<close> followed by
  a line break, and the decoder reads from that text the six fields of the page,
  loading the saved file gives the page back (with the title and folder of its path).
\<close>

lemma roundtrip_without_delimiter:
  assumes "yaml_Marshal L (saveMetadata page) = Inr y"
    and "saveMetadata page \<noteq> []"
    and "\<not> Contains y ''---\<newline>''"
    and "yaml_Unmarshal L y = Inr metadata"
    and "extractMetadata metadata page = page"
    and "\<not> write_fails fs (FilePath page)"
  shows "loadPage L (snd (Save L fs page)) (FilePath page) vaultPath =
     (case filepath_Rel L vaultPath (FilePath page) of
        Inl err \<Rightarrow> Inl err
      | Inr relPath \<Rightarrow>
          Inr (page\<lparr>Title := TrimSuffix (Base (FilePath page)) ''.md'', Folder := Dir relPath\<rparr>))"
proof -
  let ?bytes = "''---\<newline>'' @ y @ ''---\<newline>'' @ Content page"
  have s: "snd (Save L fs page) = fs\<lparr>files := (files fs)(FilePath page \<mapsto> ?bytes)\<rparr>"
    using assms(1,2,6) by (simp add: Save_def fileContent_def WriteFile_def)
  have i: "Index (drop 4 ?bytes) ''---\<newline>'' = Some (length y)"
    using Index_delimiter [OF assms(3)] by simp
  have d: "drop (length y + 8) ?bytes = Content page"
    by (simp add: drop_frame)
  have e: "extractMetadata metadata ((newPage (FilePath page))\<lparr>Content := Content page\<rparr>)
      = page\<lparr>Title := [], Folder := []\<rparr>"
    using assms(5) unfolding extractMetadata_def newPage_def
    by (cases page) (simp add: Page.defs)
  show ?thesis
    unfolding loadPage_def s
    using i assms(4) e d
    by (simp add: ReadFile_def HasPrefix_def Let_def split: sum.split)
qed

text \<open>
  Claim C1 (a page with six non-empty fields is read back as it was saved) fails on
  the code for the page \<open>sixFields\<close>, whose message is \<^verbatim>\<open>hi---\<close>. \<open>Save\<close> succeeds
  and writes the line \<^verbatim>\<open>web-message: hi---\<close>; \<open>loadPage\<close> looks for the bytes
  \<^verbatim>\<open>---\<close> and a line break anywhere after the opening line, finds them at the end
  of that line, and returns the message \<^verbatim>\<open>hi\<close> and a body that starts with the
  closing delimiter.
\<close>

theorem roundtrip_breaks_on_dashes:
  "loadPage go_lib (snd (Save go_lib (diskOf []) sixFields)) (FilePath sixFields) ''vault'' =
     Inr (sixFields\<lparr>WebMessage := ''hi'', Content := ''---\<newline>My notes\<newline>''\<rparr>)
   \<and> fst (Save go_lib (diskOf []) sixFields) = None"
  by code_simp

section \<open>C2: the folder router\<close>

lemma keywordLoop_pieces:
  "keywordLoop L pieces =
     map (strings_ToLower L) (filter (\<lambda>kw. kw \<noteq> []) (map (strings_TrimSpace L) pieces))"
  by (induction pieces) (simp_all add: Let_def)

lemma remainder_with_colon:
  "CHR '':'' \<in> set rule \<Longrightarrow> ruleRemainder rule = tl (dropWhile (\<lambda>c. c \<noteq> CHR '':'') rule)"
proof -
  assume "CHR '':'' \<in> set rule"
  have "drop (length (takeWhile (\<lambda>c. c \<noteq> CHR '':'') rule)) rule = dropWhile (\<lambda>c. c \<noteq> CHR '':'') rule"
    by (rule dropWhile_eq_drop [symmetric])
  then show ?thesis
    by (simp add: ruleRemainder_def ruleFolder_def drop_Suc drop_tl)
qed

lemma folder_without_colon: "CHR '':'' \<notin> set rule \<Longrightarrow> ruleFolder rule = rule"
  by (auto simp: ruleFolder_def takeWhile_eq_all_conv)

lemma remainder_without_colon: "CHR '':'' \<notin> set rule \<Longrightarrow> ruleRemainder rule = []"
  by (simp add: ruleRemainder_def folder_without_colon)

text \<open>
  The parser of the program gives the folder and the keywords of the rule, the
  keywords lower-cased.
\<close>

lemma parseFolderConfig_rule:
  "parseFolderConfig L rule = (ruleFolder rule, map (strings_ToLower L) (ruleKeywords L rule))"
proof (cases "CHR '':'' \<in> set rule")
  case True
  then show ?thesis
    by (simp add: parseFolderConfig_def SplitN2_def Let_def remainder_with_colon [symmetric]
        ruleKeywords_def keywordLoop_pieces ruleFolder_def)
next
  case False
  then show ?thesis
    by (simp add: parseFolderConfig_def SplitN2_def Let_def remainder_without_colon
        ruleKeywords_def folder_without_colon)
qed

lemma keywordFound_iff: "keywordFound lowerNote kws \<longleftrightarrow> list_ex (Contains lowerNote) kws"
  by (induction kws) simp_all

lemma keywordFound_rule:
  "keywordFound (strings_ToLower L note) (map (strings_ToLower L) kws)
     \<longleftrightarrow> list_ex (\<lambda>kw. occursIgnoringCase L kw note) kws"
  by (induction kws) (simp_all add: occursIgnoringCase_def Contains_iff)

lemma folderScan_find:
  "folderScan L (strings_ToLower L note) rules =
     map_option ruleFolder
       (find (\<lambda>rule. list_ex (\<lambda>kw. occursIgnoringCase L kw note) (ruleKeywords L rule)) rules)"
proof (induction rules)
  case Nil
  show ?case by simp
next
  case (Cons rule rules)
  show ?case
  proof (cases "list_ex (\<lambda>kw. occursIgnoringCase L kw note) (ruleKeywords L rule)")
    case True
    then have "ruleKeywords L rule \<noteq> []" by auto
    with True show ?thesis
      by (simp add: parseFolderConfig_rule keywordFound_rule)
  next
    case False
    with Cons.IH show ?thesis
      by (simp add: parseFolderConfig_rule keywordFound_rule)
  qed
qed

text \<open>
  Claim C2. \<open>determineFolderForUser\<close> is a total function of the rule list and the
  note (the identifier is only logged) and computes \<^const>\<open>routeUser\<close>: \<^verbatim>\<open>"People"\<close>
  for an empty rule list; for a non-empty note the folder of the first rule, in
  order, one of whose keywords occurs in the note without regard to case (keyword
  and note both lower-cased); and otherwise (no keyword occurs, or the note is
  empty) the folder of the first rule, whatever its keywords. The folder and the
  keywords of a rule are those of \<^const>\<open>ruleFolder\<close> and \<^const>\<open>ruleKeywords\<close>, which
  do not use the parser of the program.
\<close>

theorem determineFolderForUser_routeUser:
  "determineFolderForUser L sync userID privateNote = routeUser L (CreatePeopleIn sync) privateNote"
proof (cases "CreatePeopleIn sync")
  case Nil
  then show ?thesis
    by (simp add: determineFolderForUser_def routeUser_def)
next
  case (Cons rule rules)
  then have ne: "CreatePeopleIn sync \<noteq> []"
    by simp
  then have first: "CreatePeopleIn sync ! 0 = hd (CreatePeopleIn sync)"
    by (simp add: hd_conv_nth)
  have scan: "folderScan L (strings_ToLower L privateNote) (CreatePeopleIn sync) =
      map_option ruleFolder
        (find (\<lambda>rule. list_ex (\<lambda>kw. occursIgnoringCase L kw privateNote) (ruleKeywords L rule))
           (CreatePeopleIn sync))"
    by (rule folderScan_find)
  show ?thesis
    unfolding determineFolderForUser_def routeUser_def scan first
    using ne by (simp add: parseFolderConfig_rule split: option.split)
qed

theorem determineFolderForUser_routeUser_witness:
  "routeUser go_lib (CreatePeopleIn sync0) ''This person is really CREEPY'' = ''Bad People''
   \<and> routeUser go_lib (CreatePeopleIn sync0) ''Nice person'' = ''People''
   \<and> routeUser go_lib (CreatePeopleIn sync0) [] = ''People''
   \<and> routeUser go_lib [] ''anything'' = ''People''
   \<and> routeUser go_lib (CreatePeopleIn sync1) ''a stalker'' = ''Bad''
   \<and> routeUser go_lib (CreatePeopleIn sync1) ''creepy'' = ''Bad''
   \<and> routeUser go_lib (CreatePeopleIn sync1) ''nice'' = ''People''
   \<and> ruleKeywords go_lib ''Bad: Creepy , STALKER,, '' = [''Creepy'', ''STALKER'']"
proof -
  have a: "determineFolderForUser go_lib sync0 ''1'' ''This person is really CREEPY'' = ''Bad People''"
    by code_simp
  have b: "determineFolderForUser go_lib sync0 ''1'' ''Nice person'' = ''People''"
    by code_simp
  have c: "determineFolderForUser go_lib sync0 ''1'' [] = ''People''"
    by code_simp
  have d: "routeUser go_lib [] ''anything'' = ''People''"
    by (simp add: routeUser_def)
  have e: "determineFolderForUser go_lib sync1 ''1'' ''a stalker'' = ''Bad''"
    by code_simp
  have f: "determineFolderForUser go_lib sync1 ''1'' ''creepy'' = ''Bad''"
    by code_simp
  have g: "determineFolderForUser go_lib sync1 ''1'' ''nice'' = ''People''"
    by code_simp
  have k: "ruleKeywords go_lib ''Bad: Creepy , STALKER,, '' = [''Creepy'', ''STALKER'']"
    by code_simp
  from a b c d e f g k
    determineFolderForUser_routeUser [of go_lib sync0 "''1''" "''This person is really CREEPY''"]
    determineFolderForUser_routeUser [of go_lib sync0 "''1''" "''Nice person''"]
    determineFolderForUser_routeUser [of go_lib sync0 "''1''" "[]"]
    determineFolderForUser_routeUser [of go_lib sync1 "''1''" "''a stalker''"]
    determineFolderForUser_routeUser [of go_lib sync1 "''1''" "''creepy''"]
    determineFolderForUser_routeUser [of go_lib sync1 "''1''" "''nice''"]
  show ?thesis by simp
qed

section \<open>C3: which pages findPageByUserID returns\<close>

text \<open>
  Claim C3. For every collection and identifier, \<open>findPageByUserID\<close> returns exactly
  the documents, in the order of the collection, whose \<open>Url\<close> contains
  \<^verbatim>\<open>/users/<id>\<close> or ends in \<^verbatim>\<open>/<id>\<close>, or one of whose \<open>UrlAliases\<close> passes the same
  test (\<^const>\<open>documentMatches\<close>). The pointers returned are positions in the
  collection, strictly increasing. The URL is not parsed: the page of user 123 is
  returned for the identifier 12.
\<close>

theorem findPageByUserID_matches:
  "map ((!) pages) (findPageByUserID pages userID) = filter (documentMatches userID) pages
   \<and> sorted_wrt (<) (findPageByUserID pages userID)
   \<and> set (findPageByUserID pages userID) \<subseteq> {..< length pages}
   \<and> findPageByUserID [page123] ''12'' = [0]"
proof -
  have "findPageByUserID [page123] ''12'' = [0]"
    by (simp add: findPageByUserID_def page123_def newPage_def urlMatches_def Contains_def)
  moreover have "set (findPageByUserID pages userID) \<subseteq> {..< length pages}"
    using findFrom_sorted [of 0 pages userID] by (auto simp: findPageByUserID_def)
  ultimately show ?thesis
    using findFrom_sorted [of 0 pages userID]
    by (simp add: findPageByUserID_def findFrom_pages)
qed

theorem findPageByUserID_matches_witness:
  "findPageByUserID [page123, page77, page123] ''123'' = [0, 2]
   \<and> findPageByUserID [page123, page77, page123] ''77'' = [1]
   \<and> filter (documentMatches ''77'') [page123, page77, page123] = [page77]"
proof -
  have a: "findPageByUserID [page123, page77, page123] ''123'' = [0, 2]"
    by (simp add: findPageByUserID_def page123_def page77_def newPage_def urlMatches_def
        Contains_def HasSuffix_def)
  have b: "findPageByUserID [page123, page77, page123] ''77'' = [1]"
    by (simp add: findPageByUserID_def page123_def page77_def newPage_def urlMatches_def
        Contains_def HasSuffix_def)
  from findPageByUserID_matches [of "[page123, page77, page123]" "''77''"]
  have "filter (documentMatches ''77'') [page123, page77, page123] = [page77]"
    by (simp add: b)
  with a b show ?thesis by simp
qed

section \<open>C4: a record that matches several pages\<close>

text \<open>
  Claim C4. When the identifier of a blocked record or of a note record matches more
  than one page, processing the record returns no error and leaves the pages in
  memory and the disk as they were, and the loop of \<open>Run\<close> goes on with the
  records that follow from the same state.
\<close>

theorem ambiguous_record_skipped:
  "(1 < length (findPageByUserID (Pages w) (UserID blocked)) \<longrightarrow>
      processBlocked L sync options w blocked = (None, w)
      \<and> processBlockeds L sync options w (blocked # rest) = processBlockeds L sync options w rest)
   \<and> (1 < length (findPageByUserID (Pages w) (MemberID note)) \<longrightarrow>
      processPrivateNote L sync options w note = (None, w)
      \<and> processPrivateNotes L sync options w (note # others) = processPrivateNotes L sync options w others)"
  by (simp add: processBlocked_def processPrivateNote_def Let_def)

theorem ambiguous_record_skipped_witness:
  "length (findPageByUserID (Pages twoAnns) (UserID blocked123)) = 2
   \<and> processBlocked go_lib sync0 options0 twoAnns blocked123 = (None, twoAnns)
   \<and> processPrivateNote go_lib sync0 options0 twoAnns note123 = (None, twoAnns)
   \<and> processBlockeds go_lib sync0 options0 twoAnns [blocked123] = twoAnns"
proof -
  have n: "findPageByUserID (Pages twoAnns) ''123'' = [0, 2]"
    by (simp add: twoAnns_def findPageByUserID_def page123_def page77_def newPage_def
        urlMatches_def Contains_def HasSuffix_def)
  have b: "UserID blocked123 = ''123''" "MemberID note123 = ''123''"
    by (simp_all add: blocked123_def note123_def)
  from ambiguous_record_skipped [of twoAnns blocked123 go_lib sync0 options0 "[]" note123 "[]"] n b
  show ?thesis by simp
qed

section \<open>C5: marking a page as blocked twice\<close>

text \<open>
  Claim C5. The update of a matched page by a blocked record (\<open>markBlocked\<close>, lines
  213-229 of \<^verbatim>\<open>processBlocked\<close>) is idempotent: applied twice with the same record it
  gives the page it gives when applied once. The tag \<^verbatim>\<open>blocked\<close> is appended only
  when absent, after the existing tags in their order, so the update never adds a
  second \<^verbatim>\<open>blocked\<close>; the message becomes \<^verbatim>\<open>Blocked on <createdAt>\<close> only when it
  was empty.
\<close>

theorem markBlocked_idempotent:
  "markBlocked blocked (markBlocked blocked page) = markBlocked blocked page
   \<and> Tags (markBlocked blocked page) =
       (if ''blocked'' \<in> set (Tags page) then Tags page else Tags page @ [''blocked''])
   \<and> WebMessage (markBlocked blocked page) =
       (if WebMessage page = [] then ''Blocked on '' @ CreatedAt blocked else WebMessage page)
   \<and> count_list (Tags (markBlocked blocked page)) ''blocked'' =
       max 1 (count_list (Tags page) ''blocked'')"
proof -
  have idem: "markBlocked blocked (markBlocked blocked page) = markBlocked blocked page"
    by (simp add: markBlocked_def Let_def hasBlockedTag_iff)
  have cnt: "count_list (Tags (markBlocked blocked page)) ''blocked'' =
       max 1 (count_list (Tags page) ''blocked'')"
  proof (cases "''blocked'' \<in> set (Tags page)")
    case True
    then have "0 < count_list (Tags page) ''blocked''"
      using count_list_0_iff [of "Tags page" "''blocked''"] by auto
    with True show ?thesis by (simp add: markBlocked_Tags)
  next
    case False
    then have "count_list (Tags page) ''blocked'' = 0"
      using count_list_0_iff [of "Tags page" "''blocked''"] by auto
    with False show ?thesis by (simp add: markBlocked_Tags)
  qed
  from idem cnt show ?thesis
    by (simp only: markBlocked_Tags markBlocked_WebMessage simp_thms)
qed

theorem markBlocked_idempotent_witness:
  "Tags (markBlocked blocked123 (markBlocked blocked123 page123)) = [''blocked'']
   \<and> WebMessage (markBlocked blocked123 (markBlocked blocked123 page123)) = ''Blocked on 2024-01-01''
   \<and> count_list (Tags (markBlocked blocked123 (markBlocked blocked123 page123))) ''blocked'' = 1"
  using markBlocked_idempotent [of blocked123 page123]
  by (simp add: page123_def newPage_def blocked123_def)

section \<open>C6: mergeUserData\<close>

lemma addBlockeds_distinct:
  "distinct (map fst m) \<Longrightarrow> distinct (map fst (addBlockeds bs m))"
  by (induction bs arbitrary: m) (simp_all add: distinct_update)

lemma addNotes_distinct:
  "distinct (map fst m) \<Longrightarrow> distinct (map fst (addNotes ns m))"
  by (induction ns arbitrary: m) (simp_all add: distinct_update split: option.split)

lemma addBlockeds_keys:
  "fst ` set (addBlockeds bs m) = UserID ` set bs \<union> fst ` set m"
  by (induction bs arbitrary: m) (auto simp: dom_update)

lemma addNotes_keys:
  "fst ` set (addNotes ns m) = MemberID ` set ns \<union> fst ` set m"
  by (induction ns arbitrary: m) (auto simp: dom_update split: option.split)

lemma addBlockeds_lookup:
  "distinct (map UserID bs) \<Longrightarrow>
   map_of (addBlockeds bs m) k =
     (case find (\<lambda>b. UserID b = k) bs of
        Some b \<Rightarrow> Some (blockedOnly b)
      | None \<Rightarrow> map_of m k)"
proof (induction bs arbitrary: m)
  case Nil
  show ?case by simp
next
  case (Cons b bs)
  let ?m = "AList.update (UserID b) (blockedOnly b) m"
  from Cons.prems have d: "distinct (map UserID bs)" and nb: "UserID b \<notin> UserID ` set bs"
    by auto
  have step: "addBlockeds (b # bs) m = addBlockeds bs ?m"
    by (simp add: blockedOnly_def)
  have IH: "map_of (addBlockeds bs ?m) k =
     (case find (\<lambda>b. UserID b = k) bs of
        Some b \<Rightarrow> Some (blockedOnly b)
      | None \<Rightarrow> map_of ?m k)"
    by (rule Cons.IH [OF d])
  show ?case
  proof (cases "UserID b = k")
    case True
    with nb have "find (\<lambda>x. UserID x = k) bs = None"
      by (fastforce simp: find_None_iff image_iff)
    with True show ?thesis
      unfolding step IH by (simp add: update_conv')
  next
    case False
    then show ?thesis
      unfolding step IH by (simp add: update_conv' split: option.split)
  qed
qed

lemma addNotes_lookup:
  "distinct (map MemberID ns) \<Longrightarrow>
   map_of (addNotes ns m) k =
     (case find (\<lambda>n. MemberID n = k) ns of
        Some n \<Rightarrow> Some (noteInto n (map_of m k))
      | None \<Rightarrow> map_of m k)"
proof (induction ns arbitrary: m)
  case Nil
  show ?case by simp
next
  case (Cons n ns)
  let ?m = "AList.update (MemberID n) (noteInto n (map_of m (MemberID n))) m"
  from Cons.prems have d: "distinct (map MemberID ns)" and nn: "MemberID n \<notin> MemberID ` set ns"
    by auto
  have step: "addNotes (n # ns) m = addNotes ns ?m"
    by (simp add: noteInto_def noteOnly_def split: option.split)
  have IH: "map_of (addNotes ns ?m) k =
     (case find (\<lambda>n. MemberID n = k) ns of
        Some n \<Rightarrow> Some (noteInto n (map_of ?m k))
      | None \<Rightarrow> map_of ?m k)"
    by (rule Cons.IH [OF d])
  show ?case
  proof (cases "MemberID n = k")
    case True
    with nn have "find (\<lambda>x. MemberID x = k) ns = None"
      by (fastforce simp: find_None_iff image_iff)
    with True show ?thesis
      unfolding step IH by (simp add: update_conv')
  next
    case False
    then show ?thesis
      unfolding step IH by (simp add: update_conv' split: option.split)
  qed
qed

lemma find_distinct_key:
  "distinct (map f xs) \<Longrightarrow> x \<in> set xs \<Longrightarrow> find (\<lambda>y. f y = f x) xs = Some x"
  by (induction xs) auto

lemma find_absent_key: "k \<notin> f ` set xs \<Longrightarrow> find (\<lambda>y. f y = k) xs = None"
  by (auto simp: find_None_iff)

lemma userMap_lookup:
  assumes "distinct (map UserID bs)" and "distinct (map MemberID ns)"
  shows "map_of (addNotes ns (addBlockeds bs [])) k =
     (case find (\<lambda>n. MemberID n = k) ns of
        Some n \<Rightarrow>
          Some (case find (\<lambda>b. UserID b = k) bs of
                  Some b \<Rightarrow> blockedAndNote b n
                | None \<Rightarrow> noteOnly n)
      | None \<Rightarrow> map_option blockedOnly (find (\<lambda>b. UserID b = k) bs))"
  by (simp add: addNotes_lookup [OF assms(2)] addBlockeds_lookup [OF assms(1)] noteInto_def
      blockedOnly_def blockedAndNote_def split: option.split)

lemma userMap_entry_key:
  assumes "distinct (map UserID bs)" and "distinct (map MemberID ns)"
    and "(k, u) \<in> set (addNotes ns (addBlockeds bs []))"
  shows "mUserID u = k"
proof -
  have "distinct (map fst (addNotes ns (addBlockeds bs [])))"
    by (simp add: addNotes_distinct addBlockeds_distinct)
  with assms(3) have "map_of (addNotes ns (addBlockeds bs [])) k = Some u"
    by simp
  then show ?thesis
    unfolding userMap_lookup [OF assms(1,2)]
    by (auto simp: blockedOnly_def noteOnly_def blockedAndNote_def
        split: option.splits dest: find_Some_iff [THEN iffD1])
qed

lemma userMap_member:
  assumes "map_of (addNotes ns (addBlockeds bs [])) k = Some u"
  shows "u \<in># mergeUserData bs ns"
proof -
  from assms have "(k, u) \<in> set (addNotes ns (addBlockeds bs []))"
    by (rule map_of_SomeD)
  then have "u \<in> snd ` set (addNotes ns (addBlockeds bs []))"
    by force
  then show ?thesis
    by (simp add: mergeUserData_def)
qed

text \<open>
  Claim C6. For a blocked list and a note list, each with unique identifiers, the
  merged records carry every identifier of either list exactly once (so \<open>N + M\<close>
  records when no identifier is shared). An identifier of the blocked list only
  has the blocked fields and empty note fields; one of the note list only has the
  note fields, \<open>Blocked = False\<close> and empty blocked fields; a shared identifier has
  one record with both.
\<close>

theorem mergeUserData_union:
  assumes "distinct (map UserID blockeds)" and "distinct (map MemberID notes)"
  shows "image_mset mUserID (mergeUserData blockeds notes) =
           mset_set (UserID ` set blockeds \<union> MemberID ` set notes)
   \<and> (UserID ` set blockeds \<inter> MemberID ` set notes = {} \<longrightarrow>
        size (mergeUserData blockeds notes) = length blockeds + length notes)
   \<and> (b \<in> set blockeds \<and> UserID b \<notin> MemberID ` set notes \<longrightarrow>
        blockedOnly b \<in># mergeUserData blockeds notes)
   \<and> (n \<in> set notes \<and> MemberID n \<notin> UserID ` set blockeds \<longrightarrow>
        noteOnly n \<in># mergeUserData blockeds notes)
   \<and> (b \<in> set blockeds \<and> n \<in> set notes \<and> UserID b = MemberID n \<longrightarrow>
        blockedAndNote b n \<in># mergeUserData blockeds notes)"
proof -
  let ?um = "addNotes notes (addBlockeds blockeds [])"
  have dist: "distinct (map fst ?um)"
    by (simp add: addNotes_distinct addBlockeds_distinct)
  have keys: "set (map fst ?um) = UserID ` set blockeds \<union> MemberID ` set notes"
    by (auto simp: addNotes_keys addBlockeds_keys)
  have ids: "map mUserID (map snd ?um) = map fst ?um"
    using userMap_entry_key [OF assms] by (auto simp: map_eq_conv)
  have one: "image_mset mUserID (mergeUserData blockeds notes) =
           mset_set (UserID ` set blockeds \<union> MemberID ` set notes)"
  proof -
    have "image_mset mUserID (mergeUserData blockeds notes) =
        mset (map mUserID (map snd ?um))"
      by (simp add: mergeUserData_def multiset.map_comp)
    also have "\<dots> = mset (map fst ?um)"
      by (simp only: ids)
    also have "\<dots> = mset_set (set (map fst ?um))"
      using mset_set_set [OF dist] by simp
    finally show ?thesis
      by (simp only: keys)
  qed
  have count: "size (mergeUserData blockeds notes) = length blockeds + length notes"
    if disj: "UserID ` set blockeds \<inter> MemberID ` set notes = {}"
  proof -
    have "size (mergeUserData blockeds notes) = length (map fst ?um)"
      by (simp add: mergeUserData_def)
    also have "\<dots> = card (set (map fst ?um))"
      using distinct_card [OF dist] by simp
    also have "\<dots> = card (UserID ` set blockeds) + card (MemberID ` set notes)"
      unfolding keys using disj by (simp add: card_Un_disjoint)
    also have "card (UserID ` set blockeds) = length blockeds"
      using assms(1) distinct_card [of "map UserID blockeds"] by simp
    also have "card (MemberID ` set notes) = length notes"
      using assms(2) distinct_card [of "map MemberID notes"] by simp
    finally show ?thesis .
  qed
  have bo: "blockedOnly b \<in># mergeUserData blockeds notes"
    if "b \<in> set blockeds" and "UserID b \<notin> MemberID ` set notes"
  proof (rule userMap_member)
    show "map_of ?um (UserID b) = Some (blockedOnly b)"
      using that
      by (simp add: userMap_lookup [OF assms] find_absent_key
          find_distinct_key [OF assms(1)])
  qed
  have no: "noteOnly n \<in># mergeUserData blockeds notes"
    if "n \<in> set notes" and "MemberID n \<notin> UserID ` set blockeds"
  proof (rule userMap_member)
    show "map_of ?um (MemberID n) = Some (noteOnly n)"
      using that
      by (simp add: userMap_lookup [OF assms] find_absent_key
          find_distinct_key [OF assms(2)])
  qed
  have both: "blockedAndNote b n \<in># mergeUserData blockeds notes"
    if "b \<in> set blockeds" and "n \<in> set notes" and "UserID b = MemberID n"
  proof (rule userMap_member)
    have "find (\<lambda>x. UserID x = MemberID n) blockeds = Some b"
      using find_distinct_key [OF assms(1) that(1)] that(3) by simp
    then show "map_of ?um (MemberID n) = Some (blockedAndNote b n)"
      using that
      by (simp add: userMap_lookup [OF assms] find_distinct_key [OF assms(2)])
  qed
  from one count bo no both show ?thesis
    by blast
qed

theorem mergeUserData_union_witness:
  "blockedAndNote blocked123 note123 \<in># mergeUserData [blocked123, blocked9] [note123, note5]
   \<and> blockedOnly blocked9 \<in># mergeUserData [blocked123, blocked9] [note123, note5]
   \<and> noteOnly note5 \<in># mergeUserData [blocked123, blocked9] [note123, note5]
   \<and> size (mergeUserData [blocked9] [note123, note5]) = 3"
proof -
  have d1: "distinct (map UserID [blocked123, blocked9])"
    and d2: "distinct (map MemberID [note123, note5])"
    and d3: "distinct (map UserID [blocked9])"
    by (simp_all add: blocked123_def blocked9_def note123_def note5_def)
  have ids: "UserID blocked123 = ''123''" "UserID blocked9 = ''9''"
    "MemberID note123 = ''123''" "MemberID note5 = ''5''"
    by (simp_all add: blocked123_def blocked9_def note123_def note5_def)
  from mergeUserData_union [OF d1 d2, of blocked123 note123]
  have a: "blockedAndNote blocked123 note123 \<in># mergeUserData [blocked123, blocked9] [note123, note5]"
    by (simp add: ids)
  from mergeUserData_union [OF d1 d2, of blocked9 note5]
  have b: "blockedOnly blocked9 \<in># mergeUserData [blocked123, blocked9] [note123, note5]"
    and c: "noteOnly note5 \<in># mergeUserData [blocked123, blocked9] [note123, note5]"
    by (simp_all add: ids)
  from mergeUserData_union [OF d3 d2, of blocked9 note5]
  have d: "size (mergeUserData [blocked9] [note123, note5]) = 3"
    by (simp add: ids)
  from a b c d show ?thesis by simp
qed

section \<open>C7: the keys of the metadata block\<close>

lemma saveMetadata_claimed: "saveMetadata page = claimedEntries page"
  by (simp add: saveMetadata_def claimedEntries_def nonEmpty_def)

lemma sort_all:
  "sort_key fst [(''tags'', a), (''aliases'', b), (''url'', c), (''url-aliases'', d),
        (''web-badge-color'', e), (''web-message'', f)]
   = [(''aliases'', b), (''tags'', a), (''url'', c), (''url-aliases'', d),
        (''web-badge-color'', e), (''web-message'', f)]"
  by (simp add: less_eq_char_def less_char_def)

lemma sort_claimed: "sort_key fst (claimedEntries page) = sortedEntries page"
  unfolding claimedEntries_def sortedEntries_def
  by (subst filter_sort [symmetric]) (simp only: sort_all)

text \<open>
  Claim C7, as amended. \<open>Save\<close> puts into the metadata exactly the fields that are
  not empty (\<open>sortedEntries\<close>). The metadata is a Go map, which keeps no order of insertion, so the
  order of the keys in the file is the encoder's: for an encoder that writes the
  block style with sorted keys (as \<^verbatim>\<open>yaml.v3\<close> does), the file holds the non-empty
  fields in the order aliases, tags, url, url-aliases, web-badge-color, web-message.
\<close>

theorem fileContent_sorted_keys:
  assumes "yaml_Marshal L (saveMetadata page) = Inr (yamlBlock sc (saveMetadata page))"
  shows "set (saveMetadata page) = set (sortedEntries page)
   \<and> fileContent L page =
       Inr (if sortedEntries page = [] then Content page
            else ''---\<newline>'' @ concat (map (yamlEntry sc) (sortedEntries page)) @ ''---\<newline>''
                 @ Content page)"
proof -
  have s: "set (sortedEntries page) = set (claimedEntries page)"
    using sort_claimed [of page, symmetric] by simp
  then have e: "sortedEntries page = [] \<longleftrightarrow> claimedEntries page = []"
    by (metis set_empty)
  show ?thesis
    using assms s e
    by (simp add: fileContent_def Let_def saveMetadata_claimed yamlBlock_def sort_claimed)
qed

text \<open>
  The claim as first stated (keys in the order tags, aliases, ...) fails on a page
  with tags and aliases: the file starts with the aliases.
\<close>

theorem metadata_key_order_counterexample:
  "fileContent go_lib sixFields =
     Inr ''---\<newline>aliases:\<newline>    - Annie\<newline>tags:\<newline>    - person\<newline>    - friend\<newline>url: https://fetlife.com/users/123\<newline>url-aliases:\<newline>    - https://example.org/ann\<newline>web-badge-color: red\<newline>web-message: hi---\<newline>---\<newline>My notes\<newline>''
   \<and> fileContent go_lib sixFields \<noteq> Inr (claimedFileContent (\<lambda>indent s. s) sixFields)"
  by code_simp

theorem fileContent_sorted_keys_witness:
  "fileContent go_lib sixFields =
     Inr (''---\<newline>'' @ concat (map (yamlEntry (\<lambda>indent s. s)) (sortedEntries sixFields)) @ ''---\<newline>''
          @ Content sixFields)
   \<and> map fst (sortedEntries sixFields) =
       [''aliases'', ''tags'', ''url'', ''url-aliases'', ''web-badge-color'', ''web-message'']"
proof -
  have h: "yaml_Marshal go_lib (saveMetadata sixFields) =
      Inr (yamlBlock (\<lambda>indent s. s) (saveMetadata sixFields))"
    by code_simp
  have k: "map fst (sortedEntries sixFields) =
       [''aliases'', ''tags'', ''url'', ''url-aliases'', ''web-badge-color'', ''web-message'']"
    by code_simp
  from k have "sortedEntries sixFields \<noteq> []" by auto
  with fileContent_sorted_keys [OF h] k show ?thesis
    by simp
qed

section \<open>C8: the built-in template\<close>

lemma ReplaceAll_skip:
  "old \<noteq> [] \<Longrightarrow> hd old \<notin> set a \<Longrightarrow> ReplaceAll (a @ s) old new = a @ ReplaceAll s old new"
proof (induction a)
  case Nil
  show ?case by simp
next
  case (Cons c a)
  from Cons.prems have "\<not> prefix old (c # a @ s)"
    by (cases old) auto
  with Cons show ?case by simp
qed

lemma ReplaceAll_absent:
  "old \<noteq> [] \<Longrightarrow> hd old \<notin> set s \<Longrightarrow> ReplaceAll s old new = s"
  using ReplaceAll_skip [of old s "[]" new] by simp

lemma ReplaceAll_hit:
  "old \<noteq> [] \<Longrightarrow> ReplaceAll (old @ s) old new = new @ ReplaceAll s old new"
  by (cases old) simp_all

text \<open>
  With no template file, and for an identifier without the letter \<^verbatim>\<open>u\<close> and
  without a brace (every number is one), the file that \<open>createPageInFolder\<close> writes
  holds the identifier twice.
\<close>

lemma defaultTemplate_rewritten:
  assumes "CHR ''u'' \<notin> set userID" and "CHR ''{'' \<notin> set userID"
  shows "ReplaceAll (ReplaceAll (defaultTemplate userID) ''{{title}}'' pageName)
           ''url: https://fetlife.com/users/'' (''url: https://fetlife.com/users/'' @ userID)
         = ''---\<newline>tags:\<newline>  - person\<newline>url: https://fetlife.com/users/'' @ userID @ userID
           @ ''\<newline>---\<newline>\<newline># Notes\<newline>''"
proof -
  let ?old = "''url: https://fetlife.com/users/''"
  let ?a = "''---\<newline>tags:\<newline>  - person\<newline>''"
  let ?b = "''\<newline>---\<newline>\<newline># Notes\<newline>''"
  have t: "ReplaceAll (defaultTemplate userID) ''{{title}}'' pageName = defaultTemplate userID"
    by (rule ReplaceAll_absent) (use assms(2) in \<open>simp_all add: defaultTemplate_def\<close>)
  have d: "defaultTemplate userID = ?a @ ?old @ userID @ ?b"
    by (simp add: defaultTemplate_def)
  have r: "ReplaceAll (userID @ ?b) ?old (?old @ userID) = userID @ ?b"
    by (rule ReplaceAll_absent) (use assms(1) in simp_all)
  have "ReplaceAll (?a @ ?old @ userID @ ?b) ?old (?old @ userID)
      = ?a @ ReplaceAll (?old @ userID @ ?b) ?old (?old @ userID)"
    by (rule ReplaceAll_skip) simp_all
  also have "\<dots> = ?a @ (?old @ userID) @ ReplaceAll (userID @ ?b) ?old (?old @ userID)"
    by (subst ReplaceAll_hit) simp_all
  also have "\<dots> = ?a @ (?old @ userID) @ userID @ ?b"
    by (simp only: r)
  finally have "ReplaceAll (defaultTemplate userID) ?old (?old @ userID)
      = ?a @ (?old @ userID) @ userID @ ?b"
    by (simp only: d)
  then show ?thesis
    by (simp add: t)
qed

lemma createPageInFolder_default_content:
  assumes "CHR ''u'' \<notin> set userID" and "CHR ''{'' \<notin> set userID"
    and "files (disk w) (Join [Vault options, ''Templates'', ''People.md'']) = None"
    and "\<not> mkdir_fails (disk w) (Join [Vault options, folder])"
    and "\<not> write_fails (disk w) (Join [Join [Vault options, folder], pageName @ ''.md''])"
    and "pageName = (if nickname = [] then ''user-'' @ userID else nickname)"
  shows "files (disk (snd (createPageInFolder L options w userID nickname folder)))
           (Join [Join [Vault options, folder], pageName @ ''.md''])
         = Some (''---\<newline>tags:\<newline>  - person\<newline>url: https://fetlife.com/users/'' @ userID @ userID
                 @ ''\<newline>---\<newline>\<newline># Notes\<newline>'')"
  using assms(3-6) defaultTemplate_rewritten [OF assms(1,2), of pageName]
  by (simp add: createPageInFolder_def Let_def MkdirAll_def ReadFile_def WriteFile_def
      split: sum.split)

text \<open>
  Claim C8 (with no template file the page is made from the built-in template and its
  URL is the prefix followed by the identifier once) fails on the code in its last
  part. In a vault without \<^verbatim>\<open>Templates/People.md\<close>, \<open>createPageInFolder\<close> for the
  identifier 12345 succeeds, but the built-in template already ends its URL with the
  identifier and the rewrite of the prefix appends it again: the file and the page
  hold \<^verbatim>\<open>https://fetlife.com/users/1234512345\<close>.
\<close>

theorem default_template_doubles_identifier:
  "fst (createPageInFolder go_lib options0 emptyVault ''12345'' ''TestUser'' ''People'') = Inr 0
   \<and> files (disk (snd (createPageInFolder go_lib options0 emptyVault ''12345'' ''TestUser'' ''People'')))
        ''vault/People/TestUser.md'' =
      Some ''---\<newline>tags:\<newline>  - person\<newline>url: https://fetlife.com/users/1234512345\<newline>---\<newline>\<newline># Notes\<newline>''
   \<and> map Url (Pages (snd (createPageInFolder go_lib options0 emptyVault ''12345'' ''TestUser'' ''People'')))
      = [''https://fetlife.com/users/1234512345'']"
  by code_simp

section \<open>C9: front matter that is never closed\<close>

text \<open>
  Claim C9. For a file that starts with the line \<^verbatim>\<open>---\<close> and has no second
  \<^verbatim>\<open>---\<close> followed by a line break, \<open>loadPage\<close> calls no YAML decoder and reports no
  parse error: its result is the page with the title and folder of the path and
  every other field zero, the body included (the only error left is that of
  \<^verbatim>\<open>filepath.Rel\<close> on the two paths, which does not depend on the content). Saving
  the page that was returned writes the empty file: the text is lost.
\<close>

theorem loadPage_unterminated:
  assumes "files fs filePath = Some content"
    and "HasPrefix content ''---\<newline>''"
    and "\<not> Contains (drop 4 content) ''---\<newline>''"
  shows "loadPage L fs filePath vaultPath =
           (case filepath_Rel L vaultPath filePath of
              Inl err \<Rightarrow> Inl err
            | Inr relPath \<Rightarrow>
                Inr ((newPage filePath)\<lparr>Title := TrimSuffix (Base filePath) ''.md'',
                                        Folder := Dir relPath\<rparr>))
         \<and> (\<forall>page. loadPage L fs filePath vaultPath = Inr page \<longrightarrow>
               Content page = [] \<and> Tags page = [] \<and> Aliases page = [] \<and> Url page = []
               \<and> UrlAliases page = [] \<and> WebBadgeColor page = [] \<and> WebMessage page = []
               \<and> Save L fs page = WriteFile fs filePath [])"
proof -
  have eq: "loadPage L fs filePath vaultPath =
           (case filepath_Rel L vaultPath filePath of
              Inl err \<Rightarrow> Inl err
            | Inr relPath \<Rightarrow>
                Inr ((newPage filePath)\<lparr>Title := TrimSuffix (Base filePath) ''.md'',
                                        Folder := Dir relPath\<rparr>))"
    using assms
    by (simp add: loadPage_def ReadFile_def Contains_def Let_def split: sum.split)
  show ?thesis
    unfolding eq
    by (auto simp: newPage_def Save_def fileContent_def saveMetadata_def split: sum.splits)
qed

theorem loadPage_unterminated_witness:
  "loadPage go_lib unterminated ''vault/People/Cy.md'' ''vault'' =
     Inr ((newPage ''vault/People/Cy.md'')\<lparr>Title := ''Cy'', Folder := ''People''\<rparr>)
   \<and> files (snd (Save go_lib unterminated
        ((newPage ''vault/People/Cy.md'')\<lparr>Title := ''Cy'', Folder := ''People''\<rparr>)))
        ''vault/People/Cy.md'' = Some []"
proof -
  have f: "files unterminated ''vault/People/Cy.md'' =
      Some ''---\<newline>tags:\<newline>  - person\<newline>My notes\<newline>''"
    by (simp add: unterminated_def diskOf_def)
  have p: "HasPrefix ''---\<newline>tags:\<newline>  - person\<newline>My notes\<newline>'' ''---\<newline>''"
    by (simp add: HasPrefix_def)
  have c: "\<not> Contains (drop 4 ''---\<newline>tags:\<newline>  - person\<newline>My notes\<newline>'') ''---\<newline>''"
    by (simp add: Contains_def)
  have r: "filepath_Rel go_lib ''vault'' ''vault/People/Cy.md'' = Inr ''People/Cy.md''"
    by code_simp
  have t: "TrimSuffix (Base ''vault/People/Cy.md'') ''.md'' = ''Cy''"
    by code_simp
  have d: "Dir ''People/Cy.md'' = ''People''"
    by code_simp
  from loadPage_unterminated [OF f p c, of go_lib "''vault''"] r t d
  show ?thesis
    by (simp add: WriteFile_def unterminated_def diskOf_def)
qed

section \<open>C10: the title of a page made for a note\<close>

lemma Split_no_sep: "sep \<notin> set s \<Longrightarrow> Split s sep = [s]"
proof -
  assume "sep \<notin> set s"
  then have d: "dropWhile (\<lambda>c. c \<noteq> sep) s = []"
    by auto
  show ?thesis
    by (subst Split.simps, subst d) simp
qed

lemma Split_first: "sep \<notin> set a \<Longrightarrow> Split (a @ sep # rest) sep = a # Split rest sep"
proof -
  assume a: "sep \<notin> set a"
  then have d: "dropWhile (\<lambda>c. c \<noteq> sep) (a @ sep # rest) = sep # rest"
    by (subst dropWhile_append2) auto
  from a have t: "takeWhile (\<lambda>c. c \<noteq> sep) (a @ sep # rest) = a"
    by (subst takeWhile_append2) auto
  show ?thesis
    by (subst Split.simps) (simp add: d t)
qed

lemma Split_snoc: "sep \<notin> set n \<Longrightarrow> Split (d @ sep # n) sep = Split d sep @ [n]"
proof (induction d sep rule: Split.induct)
  case (1 s sep)
  show ?case
  proof (cases "dropWhile (\<lambda>c. c \<noteq> sep) s")
    case Nil
    then have ns: "sep \<notin> set s"
      by auto
    with "1.prems" show ?thesis
      by (simp add: Split_first Split_no_sep)
  next
    case (Cons c rest)
    then have c: "c = sep"
      using hd_dropWhile [of "\<lambda>c. c \<noteq> sep" s] by auto
    have s: "s = takeWhile (\<lambda>c. c \<noteq> sep) s @ sep # rest"
      using takeWhile_dropWhile_id [of "\<lambda>c. c \<noteq> sep" s] Cons c by simp
    have nt: "sep \<notin> set (takeWhile (\<lambda>c. c \<noteq> sep) s)"
      by (auto dest: set_takeWhileD)
    have IH: "Split (rest @ sep # n) sep = Split rest sep @ [n]"
      using "1.IH" [OF Cons] "1.prems" by simp
    have "Split (s @ sep # n) sep =
        Split (takeWhile (\<lambda>c. c \<noteq> sep) s @ sep # (rest @ sep # n)) sep"
      by (subst s) simp
    also have "\<dots> = takeWhile (\<lambda>c. c \<noteq> sep) s # Split (rest @ sep # n) sep"
      by (rule Split_first [OF nt])
    also have "\<dots> = (takeWhile (\<lambda>c. c \<noteq> sep) s # Split rest sep) @ [n]"
      by (simp add: IH)
    also have "takeWhile (\<lambda>c. c \<noteq> sep) s # Split rest sep = Split s sep"
      by (subst (2) Split.simps) (simp add: Cons)
    finally show ?thesis .
  qed
qed

lemma join_elems_snoc:
  "join_elems (es @ [n]) = (if es = [] then n else join_elems es @ ''/'' @ n)"
  by (induction es rule: join_elems.induct) simp_all

lemma Clean_snoc:
  assumes "fileName n" and "p = n \<or> p = d @ ''/'' @ n"
  shows "\<exists>x. Clean p = x @ n \<and> (x = [] \<or> last x = CHR ''/'')"
proof -
  from assms(1) have n: "n \<noteq> []" "n \<noteq> ''.''" "n \<noteq> ''..''" "CHR ''/'' \<notin> set n"
    by (simp_all add: fileName_def)
  from assms(2) n have pn: "p \<noteq> []" by auto
  from assms(2) obtain es where es: "Split p CHR ''/'' = es @ [n]"
  proof
    assume "p = n"
    with n have "Split p CHR ''/'' = [] @ [n]" by (simp add: Split_no_sep)
    then show ?thesis by (rule that)
  next
    assume "p = d @ ''/'' @ n"
    with n have "Split p CHR ''/'' = Split d CHR ''/'' @ [n]" by (simp add: Split_snoc)
    then show ?thesis by (rule that)
  qed
  define rooted where "rooted = (hd p = CHR ''/'')"
  define st where "st = fold (clean_step rooted) es []"
  have f: "fold (clean_step rooted) (Split p CHR ''/'') [] = n # st"
    using n by (simp add: es st_def clean_step_def)
  have c: "Clean p = (if rooted then ''/'' else []) @ join_elems (rev st @ [n])"
    using pn n by (simp add: Clean_def Let_def f rooted_def [symmetric] join_elems_snoc)
  show ?thesis
  proof (cases "st = []")
    case True
    with c have "Clean p = (if rooted then ''/'' else []) @ n" by simp
    then show ?thesis by (intro exI [of _ "if rooted then ''/'' else []"]) simp
  next
    case False
    with c have "Clean p = ((if rooted then ''/'' else []) @ join_elems (rev st) @ ''/'') @ n"
      by (simp add: join_elems_snoc)
    then show ?thesis
      by (intro exI [of _ "(if rooted then ''/'' else []) @ join_elems (rev st) @ ''/''"]) simp
  qed
qed

lemma Base_snoc:
  assumes "n \<noteq> []" and "CHR ''/'' \<notin> set n" and "x = [] \<or> last x = CHR ''/''"
  shows "Base (x @ n) = n"
proof -
  have h: "hd (rev n) \<noteq> CHR ''/''"
    using assms(1,2) by (metis hd_rev last_in_set)
  have r: "rev n \<noteq> []" using assms(1) by simp
  have d: "dropWhile (\<lambda>c. c = CHR ''/'') (rev n @ rev x) = rev n @ rev x"
    using h r by (cases "rev n") simp_all
  have t: "takeWhile (\<lambda>c. c \<noteq> CHR ''/'') (rev n @ rev x) = rev n"
  proof -
    have a: "\<forall>c \<in> set (rev n). c \<noteq> CHR ''/''" using assms(2) by auto
    have "takeWhile (\<lambda>c. c \<noteq> CHR ''/'') (rev x) = []"
      using assms(3) by (cases x rule: rev_cases) simp_all
    with a show ?thesis by (subst takeWhile_append2) auto
  qed
  show ?thesis
    using assms(1) by (simp add: Base_def Let_def d t)
qed

lemma Base_Join:
  assumes "fileName n"
  shows "Base (Join [d, n]) = n"
proof -
  from assms have n: "n \<noteq> []" "CHR ''/'' \<notin> set n"
    by (simp_all add: fileName_def)
  define p where "p = (if d = [] then n else d @ ''/'' @ n)"
  have j: "Join [d, n] = Clean p"
    using n by (simp add: Join_def p_def)
  have "p = n \<or> p = d @ ''/'' @ n"
    by (simp add: p_def)
  from Clean_snoc [OF assms this]
  obtain x where "Clean p = x @ n" and "x = [] \<or> last x = CHR ''/''"
    by blast
  then show ?thesis
    using Base_snoc [OF n] by (simp add: j)
qed

lemma TrimSuffix_append: "TrimSuffix (s @ suf) suf = s"
  by (simp add: TrimSuffix_def HasSuffix_def)

lemma user_fileName: "CHR ''/'' \<notin> set userID \<Longrightarrow> fileName (''user-'' @ userID @ ''.md'')"
  by (auto simp: fileName_def)

lemma loadPage_Title:
  "loadPage L fs filePath vaultPath = Inr page \<Longrightarrow> Title page = TrimSuffix (Base filePath) ''.md''"
  by (auto simp: loadPage_def Let_def extractMetadata_def split: sum.splits if_splits option.splits)

lemma createPageInFolder_Pages:
  assumes "createPageInFolder L options w userID nickname folder = (r, w')"
  shows "(\<exists>err. r = Inl err \<and> Pages w' = Pages w)
       \<or> (\<exists>page. r = Inr (length (Pages w)) \<and> Pages w' = Pages w @ [page]
            \<and> Title page =
                TrimSuffix (Base (Join [Join [Vault options, folder],
                  (if nickname = [] then ''user-'' @ userID else nickname) @ ''.md''])) ''.md'')"
  using assms
  by (auto simp: createPageInFolder_def Let_def MkdirAll_def WriteFile_def
      split: option.splits sum.splits if_splits prod.splits dest: loadPage_Title)


lemma updateAndSave_Pages:
  "Pages (snd (updateAndSave L w ref page)) = (Pages w)[ref := page]"
  by (simp add: updateAndSave_def Let_def split: prod.split)

text \<open>
  Claim C10, as amended. When no page matches the identifier of a note record,
  \<open>processPrivateNote\<close> creates the page with the empty nickname: it is the result of
  \<open>createPageInFolder\<close> on the identifier, the empty nickname and the folder of the
  router, followed by the update of the message. When moreover the identifier holds
  no \<^verbatim>\<open>/\<close>, processing the record either fails and adds no page, or adds exactly one
  page, whose title is \<^verbatim>\<open>user-<identifier>\<close> whatever the note says, and whose message
  is the note.
\<close>

theorem note_page_title:
  assumes "findPageByUserID (Pages w) (MemberID note) = []"
  shows "processPrivateNote L sync options w note =
           (case createPageInFolder L options w (MemberID note) []
                   (determineFolderForUser L sync (MemberID note) (PrivateNote note)) of
              (Inl err, w') \<Rightarrow> (Some err, w')
            | (Inr page, w') \<Rightarrow>
                updateAndSave L w' page ((Pages w' ! page)\<lparr>WebMessage := PrivateNote note\<rparr>))
       \<and> (CHR ''/'' \<notin> set (MemberID note) \<longrightarrow>
            (fst (processPrivateNote L sync options w note) \<noteq> None
               \<and> Pages (snd (processPrivateNote L sync options w note)) = Pages w)
            \<or> (\<exists>page. Pages (snd (processPrivateNote L sync options w note)) = Pages w @ [page]
                  \<and> Title page = ''user-'' @ MemberID note
                  \<and> WebMessage page = PrivateNote note))"
proof (intro conjI impI)
  show "processPrivateNote L sync options w note =
           (case createPageInFolder L options w (MemberID note) []
                   (determineFolderForUser L sync (MemberID note) (PrivateNote note)) of
              (Inl err, w') \<Rightarrow> (Some err, w')
            | (Inr page, w') \<Rightarrow>
                updateAndSave L w' page ((Pages w' ! page)\<lparr>WebMessage := PrivateNote note\<rparr>))"
    using assms by (simp add: processPrivateNote_def createPageFromTemplateWithNote_def)
next
  assume slash: "CHR ''/'' \<notin> set (MemberID note)"
  define folder where "folder = determineFolderForUser L sync (MemberID note) (PrivateNote note)"
  obtain r w' where c: "createPageInFolder L options w (MemberID note) [] folder = (r, w')"
    by (cases "createPageInFolder L options w (MemberID note) [] folder")
  have p: "processPrivateNote L sync options w note =
      (case r of
         Inl err \<Rightarrow> (Some err, w')
       | Inr page \<Rightarrow> updateAndSave L w' page ((Pages w' ! page)\<lparr>WebMessage := PrivateNote note\<rparr>))"
    using assms c
    by (simp add: processPrivateNote_def createPageFromTemplateWithNote_def folder_def)
  have t: "TrimSuffix (Base (Join [Join [Vault options, folder], (''user-'' @ MemberID note) @ ''.md''])) ''.md''
      = ''user-'' @ MemberID note"
    using Base_Join [OF user_fileName [OF slash], of "Join [Vault options, folder]"]
      TrimSuffix_append [of "''user-'' @ MemberID note" "''.md''"]
    by simp
  from createPageInFolder_Pages [OF c]
  show "(fst (processPrivateNote L sync options w note) \<noteq> None
          \<and> Pages (snd (processPrivateNote L sync options w note)) = Pages w)
       \<or> (\<exists>page. Pages (snd (processPrivateNote L sync options w note)) = Pages w @ [page]
             \<and> Title page = ''user-'' @ MemberID note
             \<and> WebMessage page = PrivateNote note)"
  proof
    assume "\<exists>err. r = Inl err \<and> Pages w' = Pages w"
    then show ?thesis
      by (auto simp: p)
  next
    assume "\<exists>page. r = Inr (length (Pages w)) \<and> Pages w' = Pages w @ [page]
            \<and> Title page =
                TrimSuffix (Base (Join [Join [Vault options, folder],
                  (if [] = [] then ''user-'' @ MemberID note else []) @ ''.md''])) ''.md''"
    then obtain page where r: "r = Inr (length (Pages w))" and w': "Pages w' = Pages w @ [page]"
      and ti: "Title page = ''user-'' @ MemberID note"
      using t by auto
    have "Pages (snd (processPrivateNote L sync options w note)) =
        Pages w @ [page\<lparr>WebMessage := PrivateNote note\<rparr>]"
      by (simp add: p r updateAndSave_Pages w')
    with ti show ?thesis
      by simp
  qed
qed

text \<open>
  The claim as first stated (the title is \<^verbatim>\<open>user-<identifier>\<close> for every note
  record) fails for the identifier \<^verbatim>\<open>x/../y\<close>: \<^verbatim>\<open>filepath.Join\<close> cleans
  \<^verbatim>\<open>vault/People/user-x/../y.md\<close> to \<^verbatim>\<open>vault/People/y.md\<close>, and the title read back
  from the file name is \<^verbatim>\<open>y\<close>.
\<close>

theorem note_page_title_counterexample:
  "findPageByUserID (Pages emptyVault) (MemberID noteSlash) = []
   \<and> map Title (Pages (snd (processPrivateNote go_lib sync0 options0 emptyVault noteSlash))) = [''y'']
   \<and> ''y'' \<noteq> ''user-'' @ MemberID noteSlash"
  by code_simp

theorem note_page_title_witness:
  "findPageByUserID (Pages emptyVault) (MemberID note5) = []
   \<and> CHR ''/'' \<notin> set (MemberID note5)
   \<and> (\<exists>page. Pages (snd (processPrivateNote go_lib sync0 options0 emptyVault note5)) = [page]
         \<and> Title page = ''user-5'' \<and> WebMessage page = ''friend'')"
proof -
  have n: "length (Pages (snd (processPrivateNote go_lib sync0 options0 emptyVault note5))) = 1"
    by code_simp
  have a: "findPageByUserID (Pages emptyVault) (MemberID note5) = []"
    by (simp add: emptyVault_def findPageByUserID_def)
  have b: "CHR ''/'' \<notin> set (MemberID note5)"
    by (simp add: note5_def)
  have e: "Pages emptyVault = []" "MemberID note5 = ''5''" "PrivateNote note5 = ''friend''"
    by (simp_all add: emptyVault_def note5_def)
  from note_page_title [OF a, of go_lib sync0 options0] b
  have "(fst (processPrivateNote go_lib sync0 options0 emptyVault note5) \<noteq> None
          \<and> Pages (snd (processPrivateNote go_lib sync0 options0 emptyVault note5)) = Pages emptyVault)
       \<or> (\<exists>page. Pages (snd (processPrivateNote go_lib sync0 options0 emptyVault note5)) =
                    Pages emptyVault @ [page]
             \<and> Title page = ''user-'' @ MemberID note5
             \<and> WebMessage page = PrivateNote note5)"
    by blast
  with n a b show ?thesis
    by (auto simp: e)
qed

end
